theory Spec2Isabelle
  imports Complex_Main "HOL-Library.Sublist"
begin

section \<open>Strings and JavaScript values\<close>

text \<open>
  A string of the source is modelled by the bytes of its UTF-8 encoding, as a
  \<^typ>\<open>string\<close>. The separators, identifiers and aspect ratios the program compares are
  ASCII; the message literals that are not are spelled byte by byte. Where the source
  counts the UTF-16 code units of a string (\<open>length\<close>, \<open>substring\<close>, \<open>slice\<close>) the model
  counts them on the encoding.

  A JavaScript string is falsy exactly when it is empty; \<open>undefined\<close> is \<open>None\<close>.
\<close>

definition truthy :: "string \<Rightarrow> bool" where
  "truthy s = (s \<noteq> [])"

fun truthy_opt :: "string option \<Rightarrow> bool" where
  "truthy_opt None = False"
| "truthy_opt (Some s) = truthy s"

text \<open>\<open>a || b\<close> on an optional string \<open>a\<close> and a string \<open>b\<close>.\<close>

fun js_or :: "string option \<Rightarrow> string \<Rightarrow> string" where
  "js_or None d = d"
| "js_or (Some s) d = (if truthy s then s else d)"

text \<open>\<open>s.includes(p)\<close>.\<close>

fun str_includes :: "string \<Rightarrow> string \<Rightarrow> bool" where
  "str_includes [] p = (p = [])"
| "str_includes (c # cs) p = (prefix p (c # cs) \<or> str_includes cs p)"

text \<open>
  \<open>s.length\<close>: a character is one code unit, or two when its encoding has four bytes.
\<close>

definition is_continuation :: "char \<Rightarrow> bool" where
  "is_continuation c \<longleftrightarrow> 0x80 \<le> (of_char c :: nat) \<and> (of_char c :: nat) < 0xC0"

definition js_length :: "string \<Rightarrow> nat" where
  "js_length s =
     sum_list (map (\<lambda>c. if is_continuation c then 0
                         else if 0xF0 \<le> (of_char c :: nat) then 2 else 1) s)"

text \<open>
  \<open>s.substring(0, n)\<close> and \<open>s.slice(0, n)\<close> for \<open>n \<ge> 0\<close>. A cut between the two code units of a
  character leaves its high surrogate, spelled as the three bytes that encode it.
\<close>

definition high_surrogate :: "string \<Rightarrow> string" where
  "high_surrogate ch =
     (let b = map (\<lambda>c. (of_char c :: nat)) ch;
          cp = (b ! 0 mod 8) * 262144 + (b ! 1 mod 64) * 4096 + (b ! 2 mod 64) * 64 + b ! 3 mod 64;
          hi = 0xD800 + (cp - 0x10000) div 0x400
      in [char_of (0xE0 + hi div 4096), char_of (0x80 + hi div 64 mod 64), char_of (0x80 + hi mod 64)])"

function js_take :: "nat \<Rightarrow> string \<Rightarrow> string" where
  "js_take n [] = []"
| "js_take n (c # cs) =
     (let ch = c # takeWhile is_continuation cs;
          rest = dropWhile is_continuation cs
      in if 0xF0 \<le> (of_char c :: nat) then
           (if 2 \<le> n then ch @ js_take (n - 2) rest
            else if n = 1 then high_surrogate ch else [])
         else if 1 \<le> n then ch @ js_take (n - 1) rest else [])"
  by pat_completeness auto
termination
  by (relation "measure (\<lambda>(n, s). length s)") (auto simp: length_dropWhile_le less_Suc_eq_le)

declare js_take.simps(2) [simp del]

definition msg_no_images :: string where
  "msg_no_images = ''AI'' @ [CHR 0xE6, CHR 0xA8, CHR 0xA1, CHR 0xE5, CHR 0x9E, CHR 0x8B,
     CHR 0xE6, CHR 0x9C, CHR 0xAA, CHR 0xE8, CHR 0x83, CHR 0xBD, CHR 0xE7, CHR 0x94, CHR 0x9F,
     CHR 0xE6, CHR 0x88, CHR 0x90, CHR 0xE4, CHR 0xBB, CHR 0xBB, CHR 0xE4, CHR 0xBD, CHR 0x95,
     CHR 0xE5, CHR 0x9B, CHR 0xBE, CHR 0xE7, CHR 0x89, CHR 0x87, CHR 0xE3, CHR 0x80, CHR 0x82,
     CHR 0xE8, CHR 0xBF, CHR 0x99, CHR 0xE5, CHR 0x8F, CHR 0xAF, CHR 0xE8, CHR 0x83, CHR 0xBD,
     CHR 0xE6, CHR 0x98, CHR 0xAF, CHR 0xE7, CHR 0x94, CHR 0xB1, CHR 0xE4, CHR 0xBA, CHR 0x8E,
     CHR 0xE5, CHR 0xAE, CHR 0x89, CHR 0xE5, CHR 0x85, CHR 0xA8, CHR 0xE8, CHR 0xAE, CHR 0xBE,
     CHR 0xE7, CHR 0xBD, CHR 0xAE, CHR 0xE6, CHR 0x88, CHR 0x96, CHR 0xE8, CHR 0xAF, CHR 0xB7,
     CHR 0xE6, CHR 0xB1, CHR 0x82, CHR 0xE6, CHR 0x97, CHR 0xA0, CHR 0xE6, CHR 0x95, CHR 0x88,
     CHR 0xE3, CHR 0x80, CHR 0x82]"

definition msg_blocked_prefix :: string where
  "msg_blocked_prefix = [CHR 0xE8, CHR 0xAF, CHR 0xB7, CHR 0xE6, CHR 0xB1, CHR 0x82,
     CHR 0xE8, CHR 0xA2, CHR 0xAB, CHR 0xE9, CHR 0x98, CHR 0xBB, CHR 0xE6, CHR 0xAD, CHR 0xA2]
     @ '': ''"

definition msg_unknown_error :: string where
  "msg_unknown_error = [CHR 0xE5, CHR 0x8F, CHR 0x91, CHR 0xE7, CHR 0x94, CHR 0x9F,
     CHR 0xE6, CHR 0x9C, CHR 0xAA, CHR 0xE7, CHR 0x9F, CHR 0xA5, CHR 0xE9, CHR 0x94, CHR 0x99,
     CHR 0xE8, CHR 0xAF, CHR 0xAF, CHR 0xE3, CHR 0x80, CHR 0x82]"

text \<open>
  A value caught by \<open>catch (err)\<close>. For an object, \<open>error_message\<close> is \<open>Some m\<close> when
  \<open>err instanceof Error\<close> with \<open>err.message = m\<close>, and \<open>api_error\<close> is \<open>Some (message, status, code)\<close>
  when \<open>err.error\<close> is an object whose \<open>message\<close> and \<open>status\<close> are strings.
\<close>

datatype thrown =
    ThrownObject (error_message: "string option") (api_error: "(string \<times> string \<times> int option) option")
  | ThrownString string
  | ThrownOther

text \<open>\<open>new Error(m)\<close>.\<close>

definition new_Error :: "string \<Rightarrow> thrown" where
  "new_Error m = ThrownObject (Some m) None"

section \<open>The generation gateway: \<open>generateStyledImages\<close>\<close>

datatype part = TextPart string | InlinePart (mimeType: string) (data: string)

text \<open>
  What the program reads of a \<open>generateContent\<close> response: \<open>promptFeedback?.blockReason\<close>
  and the parts of the first candidate (empty when there is none).
\<close>

record content_response =
  blockReason :: "string option"
  parts :: "part list"

record content_request =
  c_model :: string
  c_parts :: "part list"
  c_responseModalities :: "string list"

record images_request =
  i_model :: string
  i_prompt :: string
  i_numberOfImages :: nat
  i_outputMimeType :: string
  i_aspectRatio :: string

datatype backend_request = ContentRequest content_request | ImagesRequest images_request

text \<open>
  The backend is outside the program. \<open>generateContent q i\<close> is what the \<open>i\<close>-th call of one
  gateway invocation gives for request \<open>q\<close>: a rejected promise or a response.
  \<open>generateImages q\<close> gives a rejected promise or \<open>response.generatedImages\<close> (possibly
  \<open>undefined\<close>), each image by its \<open>imageBytes\<close>.
\<close>

record backend =
  generateContent :: "content_request \<Rightarrow> nat \<Rightarrow> thrown + content_response"
  generateImages :: "images_request \<Rightarrow> thrown + string list option"

definition mapAspectRatio :: "string \<Rightarrow> string" where
  "mapAspectRatio ar =
     (if ar = ''16:9'' then ''16:9''
      else if ar = ''9:16'' then ''9:16''
      else if ar = ''3:2'' then ''4:3''
      else ''16:9'')"

fun is_inline :: "part \<Rightarrow> bool" where
  "is_inline (InlinePart m d) = True"
| "is_inline (TextPart t) = False"

fun data_url :: "part \<Rightarrow> string" where
  "data_url (InlinePart m d) = ''data:'' @ m @ '';base64,'' @ d"
| "data_url (TextPart t) = []"

definition combinedPrompt :: "string \<Rightarrow> string \<Rightarrow> string" where
  "combinedPrompt styleDescription userPrompt =
     ''Synthesize the artistic styles from ALL of the provided reference images. The key stylistic elements are described as: ''
     @ [CHR 0x22] @ styleDescription @ [CHR 0x22]
     @ ''. Use this synthesized style to create a new image depicting: ''
     @ [CHR 0x22] @ userPrompt @ [CHR 0x22]"

definition style_request :: "string \<Rightarrow> string \<Rightarrow> part list \<Rightarrow> content_request" where
  "style_request styleDescription userPrompt referenceImageParts =
     \<lparr> c_model = ''gemini-2.5-flash-image-preview'',
       c_parts = referenceImageParts @ [TextPart (combinedPrompt styleDescription userPrompt)],
       c_responseModalities = [''IMAGE'', ''TEXT''] \<rparr>"

definition text_request :: "string \<Rightarrow> string \<Rightarrow> nat \<Rightarrow> string \<Rightarrow> images_request" where
  "text_request styleDescription userPrompt numberOfImages aspectRatio =
     \<lparr> i_model = ''imagen-4.0-generate-001'',
       i_prompt = styleDescription @ '', '' @ userPrompt,
       i_numberOfImages = numberOfImages,
       i_outputMimeType = ''image/jpeg'',
       i_aspectRatio = mapAspectRatio aspectRatio \<rparr>"

text \<open>
  Path 1, the loop \<open>for (let i = 0; i < numberOfImages; i++)\<close>: \<open>k\<close> is the number of
  iterations left, \<open>acc\<close> is \<open>generatedImages\<close>. The result pairs the requests sent so far
  with the outcome.
\<close>

fun style_loop ::
  "(nat \<Rightarrow> thrown + content_response) \<Rightarrow> content_request \<Rightarrow> nat \<Rightarrow> nat \<Rightarrow> string list
     \<Rightarrow> backend_request list \<times> (thrown + string list)" where
  "style_loop call q i 0 acc = ([], Inr acc)"
| "style_loop call q i (Suc k) acc =
     (case call i of
        Inl t \<Rightarrow> ([ContentRequest q], Inl t)
      | Inr r \<Rightarrow>
          if truthy_opt (blockReason r)
          then ([ContentRequest q], Inl (new_Error (msg_blocked_prefix @ the (blockReason r))))
          else
            let (sent, res) =
              (case find is_inline (parts r) of
                 Some p \<Rightarrow> style_loop call q (i + 1) k (acc @ [data_url p])
               | None \<Rightarrow> style_loop call q (i + 1) k acc)
            in (ContentRequest q # sent, res))"

text \<open>
  \<open>referenceImageParts\<close> is optional; path 1 is taken when it is present and not empty.
\<close>

definition generateStyledImages ::
  "backend \<Rightarrow> string \<Rightarrow> string \<Rightarrow> nat \<Rightarrow> string \<Rightarrow> part list option
     \<Rightarrow> backend_request list \<times> (thrown + string list)" where
  "generateStyledImages be styleDescription userPrompt numberOfImages aspectRatio referenceImageParts =
     (if referenceImageParts \<noteq> None \<and> length (the referenceImageParts) > 0 then
        let q = style_request styleDescription userPrompt (the referenceImageParts);
            (sent, res) = style_loop (generateContent be q) q 0 numberOfImages []
        in (case res of
              Inl t \<Rightarrow> (sent, Inl t)
            | Inr generatedImages \<Rightarrow>
                if length generatedImages = 0 then (sent, Inl (new_Error msg_no_images))
                else (sent, Inr generatedImages))
      else
        let q = text_request styleDescription userPrompt numberOfImages aspectRatio
        in (case generateImages be q of
              Inl t \<Rightarrow> ([ImagesRequest q], Inl t)
            | Inr None \<Rightarrow> ([ImagesRequest q], Inl (new_Error msg_no_images))
            | Inr (Some imgs) \<Rightarrow>
                if length imgs = 0 then ([ImagesRequest q], Inl (new_Error msg_no_images))
                else ([ImagesRequest q], Inr (map (\<lambda>b. ''data:image/jpeg;base64,'' @ b) imgs))))"

section \<open>The gallery: items, groups and the application state\<close>

datatype status = Completed | Generating | Queued | Failed

text \<open>
  \<open>ImageItem\<close> of the source; its field \<open>id\<close> is \<open>item_id\<close> here. \<open>progress\<close> is a JavaScript
  number, modelled as an exact rational: rounding is left out.
\<close>

record ImageItem =
  item_id :: string
  name :: string
  status :: status
  url :: "string option"
  progress :: "rat option"
  taskId :: "string option"
  styleDescription :: string
  contentPrompt :: string
  error :: "string option"

record ImageGroup =
  date :: string
  images :: "ImageItem list"

text \<open>\<open>Task\<close> of the source, fields prefixed with \<open>t_\<close>.\<close>

record Task =
  t_id :: string
  t_contentPrompt :: string
  t_numImages :: nat
  t_aspectRatio :: string
  t_styleDescription :: "string option"
  t_referenceImageParts :: "part list option"

text \<open>
  The state of the \<open>App\<close> component that the task queue and the collections use.
  \<open>progressIntervals\<close> is the key set of the map of running interval timers.
  \<open>imageGroups\<close> and \<open>trash\<close> are the persisted collections.
\<close>

record app_state =
  taskQueue :: "Task list"
  isProcessing :: bool
  imageGroups :: "ImageGroup list"
  trash :: "ImageGroup list"
  app_error :: "string option"
  progressIntervals :: "string set"

definition placeholder_name :: string where
  "placeholder_name = [CHR 0xE7, CHR 0x94, CHR 0x9F, CHR 0xE6, CHR 0x88, CHR 0x90,
     CHR 0xE4, CHR 0xB8, CHR 0xAD] @ ''...''"

definition task_label :: string where
  "task_label = [CHR 0xE4, CHR 0xBB, CHR 0xBB, CHR 0xE5, CHR 0x8A, CHR 0xA1] @ '' ''"

definition failed_label :: string where
  "failed_label = ''... '' @ [CHR 0xE5, CHR 0xA4, CHR 0xB1, CHR 0xE8, CHR 0xB4, CHR 0xA5] @ '': ''"

definition trash_date_prefix :: string where
  "trash_date_prefix = [CHR 0xE5, CHR 0x88, CHR 0xA0, CHR 0xE9, CHR 0x99, CHR 0xA4,
     CHR 0xE4, CHR 0xBA, CHR 0x8E] @ '' ''"

definition default_style :: string where
  "default_style = ''cinematic photo, dramatic lighting, high detail, professional quality''"

text \<open>The decimal digits of a number, as \<open>${i}\<close> prints them.\<close>

fun string_of_nat :: "nat \<Rightarrow> string" where
  "string_of_nat n =
     (if n < 10 then [char_of (48 + n)]
      else string_of_nat (n div 10) @ [char_of (48 + n mod 10)])"

declare string_of_nat.simps [simp del]

text \<open>\<open>xs.findIndex(p)\<close>, with \<open>None\<close> for \<open>-1\<close>.\<close>

fun findIndex :: "('a \<Rightarrow> bool) \<Rightarrow> 'a list \<Rightarrow> nat option" where
  "findIndex p [] = None"
| "findIndex p (x # xs) =
     (if p x then Some 0 else map_option Suc (findIndex p xs))"

text \<open>
  \<open>updateImageStatus(task_id, updates)\<close>: the partial object \<open>updates\<close> is the function
  that overwrites the fields it names.
\<close>

definition updateImageStatus ::
  "string \<Rightarrow> (ImageItem \<Rightarrow> ImageItem) \<Rightarrow> ImageGroup list \<Rightarrow> ImageGroup list" where
  "updateImageStatus task_id updates prevGroups =
     map (\<lambda>grp. grp\<lparr>images :=
            map (\<lambda>img. if taskId img = Some task_id then updates img else img) (images grp)\<rparr>)
         prevGroups"

subsection \<open>The progress estimator\<close>

text \<open>\<open>img.progress ?? 0\<close>.\<close>

definition current_progress :: "ImageItem \<Rightarrow> rat" where
  "current_progress img = (case progress img of None \<Rightarrow> 0 | Some p \<Rightarrow> p)"

text \<open>The body of the interval callback for one image.\<close>

definition tick_image :: "string \<Rightarrow> ImageItem \<Rightarrow> ImageItem" where
  "tick_image tid img =
     (if taskId img = Some tid \<and> status img = Generating \<and> current_progress img < 95
      then
        let currentProgress = current_progress img;
            increment = max 1 ((95 - currentProgress) / 15)
        in img\<lparr>progress := Some (min (currentProgress + increment) 95)\<rparr>
      else img)"

definition startProgress :: "string \<Rightarrow> app_state \<Rightarrow> app_state" where
  "startProgress tid st =
     st\<lparr>imageGroups :=
          updateImageStatus tid (\<lambda>img. img\<lparr>status := Generating, progress := Some 0\<rparr>)
            (imageGroups st),
        progressIntervals := insert tid (progressIntervals st)\<rparr>"

text \<open>One firing of the interval timer of task \<open>tid\<close>; it fires only while registered.\<close>

definition progress_tick :: "string \<Rightarrow> app_state \<Rightarrow> app_state" where
  "progress_tick tid st =
     (if tid \<in> progressIntervals st
      then st\<lparr>imageGroups :=
             map (\<lambda>grp. grp\<lparr>images := map (tick_image tid) (images grp)\<rparr>) (imageGroups st)\<rparr>
      else st)"

text \<open>
  \<open>stopProgress\<close> clears the interval and sets progress to 100; the timeout it arms fires
  later as \<open>progress_decay\<close>.
\<close>

definition stopProgress :: "string \<Rightarrow> app_state \<Rightarrow> app_state" where
  "stopProgress tid st =
     st\<lparr>progressIntervals := progressIntervals st - {tid},
        imageGroups := updateImageStatus tid (\<lambda>img. img\<lparr>progress := Some 100\<rparr>) (imageGroups st)\<rparr>"

definition progress_decay :: "string \<Rightarrow> app_state \<Rightarrow> app_state" where
  "progress_decay tid st =
     st\<lparr>imageGroups := updateImageStatus tid (\<lambda>img. img\<lparr>progress := None\<rparr>) (imageGroups st)\<rparr>"

subsection \<open>The task queue\<close>

text \<open>
  \<open>enqueueTask\<close>: \<open>taskId\<close> stands for the fresh identifier built from the clock and a random
  number, \<open>dateString\<close> for today's formatted date. The source inserts the placeholders
  into today's group in place; the model returns the updated list. The reset of the
  active style is left out.
\<close>

definition placeholderImages :: "string \<Rightarrow> Task \<Rightarrow> ImageItem list" where
  "placeholderImages tid newTask =
     map (\<lambda>i. \<lparr> item_id = tid @ ''-'' @ string_of_nat i,
                name = placeholder_name,
                status = Queued,
                url = None,
                progress = None,
                taskId = Some tid,
                styleDescription = [],
                contentPrompt = t_contentPrompt newTask,
                error = None \<rparr>)
         [0 ..< t_numImages newTask]"

definition unshift_today :: "string \<Rightarrow> ImageItem list \<Rightarrow> ImageGroup list \<Rightarrow> ImageGroup list" where
  "unshift_today dateString new prev =
     (case findIndex (\<lambda>h. date h = dateString) prev of
        Some todayGroupIndex \<Rightarrow>
          prev[todayGroupIndex :=
                 (prev ! todayGroupIndex)\<lparr>images := new @ images (prev ! todayGroupIndex)\<rparr>]
      | None \<Rightarrow> \<lparr> date = dateString, images = new \<rparr> # prev)"

definition enqueueTask :: "string \<Rightarrow> string \<Rightarrow> Task \<Rightarrow> app_state \<Rightarrow> app_state" where
  "enqueueTask tid dateString taskDetails st =
     (let newTask = taskDetails\<lparr>t_id := tid\<rparr>
      in st\<lparr>imageGroups := unshift_today dateString (placeholderImages tid newTask) (imageGroups st),
            taskQueue := taskQueue st @ [newTask]\<rparr>)"

text \<open>
  The success branch of \<open>processQueue\<close>. \<open>newImages.pop()\<close> takes the last element of the
  array of results and shortens it; the array is shared by all images of all groups, so
  it is threaded through both maps.
\<close>

definition complete_image :: "Task \<Rightarrow> string \<Rightarrow> ImageItem \<Rightarrow> ImageItem" where
  "complete_image task newImageData img =
     img\<lparr>status := Completed,
         url := Some newImageData,
         styleDescription := js_or (t_styleDescription task) default_style,
         name := (if js_length (t_contentPrompt task) > 40
                  then js_take 40 (t_contentPrompt task) @ ''...''
                  else t_contentPrompt task)\<rparr>"

fun assign_images ::
  "Task \<Rightarrow> ImageItem list \<Rightarrow> string list \<Rightarrow> ImageItem list \<times> string list" where
  "assign_images task [] newImages = ([], newImages)"
| "assign_images task (img # rest) newImages =
     (if taskId img = Some (t_id task) \<and> newImages \<noteq> [] then
        let newImageData = last newImages;
            (rest', left) = assign_images task rest (butlast newImages)
        in ((if truthy newImageData then complete_image task newImageData img else img) # rest', left)
      else
        let (rest', left) = assign_images task rest newImages
        in (img # rest', left))"

fun assign_groups ::
  "Task \<Rightarrow> ImageGroup list \<Rightarrow> string list \<Rightarrow> ImageGroup list \<times> string list" where
  "assign_groups task [] newImages = ([], newImages)"
| "assign_groups task (grp # rest) newImages =
     (let (imgs, left) = assign_images task (images grp) newImages;
          (rest', left') = assign_groups task rest left
      in (grp\<lparr>images := filter (\<lambda>img. status img \<noteq> Generating) imgs\<rparr> # rest', left'))"

text \<open>The message the \<open>catch\<close> block of \<open>processQueue\<close> derives from the caught value.\<close>

fun caught_message :: "thrown \<Rightarrow> string" where
  "caught_message (ThrownObject (Some m) a) = m"
| "caught_message t = msg_unknown_error"

text \<open>
  \<open>processQueue\<close> is asynchronous. \<open>processQueue_begin\<close> is the part before the gateway call
  is awaited; it returns the task it dispatched, if any. \<open>processQueue_settle\<close> is the
  continuation once the call has settled with \<open>outcome\<close>: the rest of \<open>try\<close>, or \<open>catch\<close>,
  then \<open>finally\<close>.
\<close>

definition processQueue_begin :: "app_state \<Rightarrow> app_state \<times> Task option" where
  "processQueue_begin st =
     (if isProcessing st \<or> length (taskQueue st) = 0 then (st, None)
      else
        let task = hd (taskQueue st)
        in (startProgress (t_id task) (st\<lparr>isProcessing := True, app_error := None\<rparr>), Some task))"

definition processQueue_settle :: "Task \<Rightarrow> thrown + string list \<Rightarrow> app_state \<Rightarrow> app_state" where
  "processQueue_settle task outcome st =
     (let st1 =
        (case outcome of
           Inr newImages \<Rightarrow>
             st\<lparr>imageGroups := fst (assign_groups task (imageGroups st) newImages)\<rparr>
         | Inl err \<Rightarrow>
             let errorMessage = caught_message err
             in st\<lparr>app_error := Some (task_label @ js_take 6 (t_id task) @ failed_label @ errorMessage),
                   imageGroups :=
                     updateImageStatus (t_id task)
                       (\<lambda>img. img\<lparr>status := Failed, error := Some errorMessage\<rparr>) (imageGroups st)\<rparr>);
          st2 = stopProgress (t_id task) st1
      in st2\<lparr>taskQueue := drop 1 (taskQueue st2), isProcessing := False\<rparr>)"

text \<open>The gateway call a task makes.\<close>

definition task_call :: "backend \<Rightarrow> Task \<Rightarrow> backend_request list \<times> (thrown + string list)" where
  "task_call be task =
     generateStyledImages be (js_or (t_styleDescription task) default_style)
       (t_contentPrompt task) (t_numImages task) (t_aspectRatio task) (t_referenceImageParts task)"

text \<open>
  One whole run of \<open>processQueue\<close> on the head task: dispatch, \<open>nticks\<close> firings of the
  progress timer while the call is outstanding, then the settlement.
\<close>

definition processQueue_run :: "backend \<Rightarrow> nat \<Rightarrow> app_state \<Rightarrow> app_state" where
  "processQueue_run be nticks st =
     (case processQueue_begin st of
        (st1, None) \<Rightarrow> st1
      | (st1, Some task) \<Rightarrow>
          processQueue_settle task (snd (task_call be task))
            ((progress_tick (t_id task) ^^ nticks) st1))"

subsection \<open>Delete, restore and permanent delete\<close>

text \<open>
  \<open>handleDeleteImage\<close> and \<open>handleRestoreImage\<close> take the image out with the same nested
  \<open>map\<close>/\<open>filter\<close>, whose callbacks assign the captured variable (\<open>imageToMove\<close>,
  \<open>imageToRestore\<close>); it is threaded through as \<open>moved\<close>. Indices are JavaScript numbers
  compared with \<open>===\<close> against array indices.
\<close>

fun take_out_image ::
  "int \<Rightarrow> nat \<Rightarrow> ImageItem list \<Rightarrow> ImageItem option \<Rightarrow> ImageItem list \<times> ImageItem option" where
  "take_out_image imageIdx iIdx [] moved = ([], moved)"
| "take_out_image imageIdx iIdx (img # rest) moved =
     (if int iIdx = imageIdx then take_out_image imageIdx (Suc iIdx) rest (Some img)
      else
        let (rest', moved') = take_out_image imageIdx (Suc iIdx) rest moved
        in (img # rest', moved'))"

fun take_out_group ::
  "int \<Rightarrow> int \<Rightarrow> nat \<Rightarrow> ImageGroup list \<Rightarrow> ImageItem option
     \<Rightarrow> ImageGroup list \<times> ImageItem option" where
  "take_out_group groupIdx imageIdx gIdx [] moved = ([], moved)"
| "take_out_group groupIdx imageIdx gIdx (grp # rest) moved =
     (if int gIdx \<noteq> groupIdx then
        let (rest', moved') = take_out_group groupIdx imageIdx (Suc gIdx) rest moved
        in (grp # rest', moved')
      else
        let (newImages, moved1) = take_out_image imageIdx 0 (images grp) moved;
            (rest', moved') = take_out_group groupIdx imageIdx (Suc gIdx) rest moved1
        in (grp\<lparr>images := newImages\<rparr> # rest', moved'))"

definition prune :: "ImageGroup list \<Rightarrow> ImageGroup list" where
  "prune groups = filter (\<lambda>grp. length (images grp) > 0) groups"

text \<open>\<open>trashDate\<close> stands for today's date as \<open>toLocaleDateString('zh-CN')\<close> formats it.\<close>

definition handleDeleteImage :: "string \<Rightarrow> int \<Rightarrow> int \<Rightarrow> app_state \<Rightarrow> app_state" where
  "handleDeleteImage trashDate groupIdx imageIdx st =
     (let (mapped, imageToMove) = take_out_group groupIdx imageIdx 0 (imageGroups st) None;
          st1 = st\<lparr>imageGroups := prune mapped\<rparr>
      in (case imageToMove of
            None \<Rightarrow> st1
          | Some moved \<Rightarrow>
              let dateString = trash_date_prefix @ trashDate
              in (case find (\<lambda>g. date g = dateString) (trash st1) of
                    Some todayTrashGroup \<Rightarrow>
                      st1\<lparr>trash := map (\<lambda>g. if date g = dateString
                                              then g\<lparr>images := moved # images g\<rparr> else g) (trash st1)\<rparr>
                  | None \<Rightarrow>
                      st1\<lparr>trash := \<lparr> date = dateString, images = [moved] \<rparr> # trash st1\<rparr>)))"

definition handleRestoreImage :: "string \<Rightarrow> int \<Rightarrow> int \<Rightarrow> app_state \<Rightarrow> app_state" where
  "handleRestoreImage dateString trashGroupIdx imageIdx st =
     (let (mapped, imageToRestore) = take_out_group trashGroupIdx imageIdx 0 (trash st) None;
          st1 = st\<lparr>trash := prune mapped\<rparr>
      in (case imageToRestore of
            None \<Rightarrow> st1
          | Some restored \<Rightarrow>
              st1\<lparr>imageGroups := unshift_today dateString [restored] (imageGroups st1)\<rparr>))"

definition handlePermanentlyDeleteImage :: "int \<Rightarrow> int \<Rightarrow> app_state \<Rightarrow> app_state" where
  "handlePermanentlyDeleteImage trashGroupIdx imageIdx st =
     st\<lparr>trash :=
          prune (map (\<lambda>(gIdx, grp).
                   if int gIdx \<noteq> trashGroupIdx then grp
                   else grp\<lparr>images :=
                          map snd (filter (\<lambda>(iIdx, img). int iIdx \<noteq> imageIdx)
                                     (enumerate 0 (images grp)))\<rparr>)
                 (enumerate 0 (trash st)))\<rparr>"

text \<open>
  A page load: the two collections are read back from storage, every other piece of
  state starts from its initial value.
\<close>

definition reload :: "app_state \<Rightarrow> app_state" where
  "reload st =
     \<lparr> taskQueue = [], isProcessing = False, imageGroups = imageGroups st, trash = trash st,
       app_error = None, progressIntervals = {} \<rparr>"

subsection \<open>Reading the gallery\<close>

text \<open>All images of a collection in display order, and those that belong to one task.\<close>

definition gallery_items :: "ImageGroup list \<Rightarrow> ImageItem list" where
  "gallery_items groups = concat (map images groups)"

definition task_items :: "string \<Rightarrow> ImageGroup list \<Rightarrow> ImageItem list" where
  "task_items tid groups = filter (\<lambda>img. taskId img = Some tid) (gallery_items groups)"

text \<open>
  While the call of task \<open>tid\<close> is outstanding, relative to the state \<open>st\<close> at dispatch:
  the timer is registered, the task's images are the same ones and are all generating,
  and no group has gained or lost an image.
\<close>

definition in_flight :: "string \<Rightarrow> app_state \<Rightarrow> app_state \<Rightarrow> bool" where
  "in_flight tid st st' \<longleftrightarrow>
     tid \<in> progressIntervals st'
     \<and> map item_id (task_items tid (imageGroups st')) = map item_id (task_items tid (imageGroups st))
     \<and> (\<forall>img \<in> set (task_items tid (imageGroups st')). status img = Generating)
     \<and> map (\<lambda>g. (date g, map item_id (images g))) (imageGroups st')
         = map (\<lambda>g. (date g, map item_id (images g))) (imageGroups st)
     \<and> taskQueue st' = taskQueue st"

text \<open>The indices name an image of the collection.\<close>

definition valid_index :: "int \<Rightarrow> int \<Rightarrow> ImageGroup list \<Rightarrow> bool" where
  "valid_index groupIdx imageIdx groups \<longleftrightarrow>
     0 \<le> groupIdx \<and> groupIdx < int (length groups)
     \<and> 0 \<le> imageIdx \<and> imageIdx < int (length (images (groups ! nat groupIdx)))"

section \<open>The batch runner (\<open>VipMode\<close>)\<close>

datatype vip_status = VipPending | VipGenerating | VipCompleted | VipFailed

text \<open>
  \<open>VipTask\<close> of the source, fields prefixed with \<open>v_\<close>; \<open>id\<close> is the index the task got when
  the list was built.
\<close>

record VipTask =
  v_id :: nat
  v_name :: string
  v_prompt :: string
  v_status :: vip_status
  v_imageUrl :: "string option"
  v_error :: "string option"

text \<open>
  The state of the component that generation and translation use. \<open>generationIndexRef\<close> is
  the mutable ref holding the cursor; \<open>referenceImages\<close> holds the reference images
  already converted to request parts.
\<close>

record vip_state =
  tasks :: "VipTask list"
  isGenerating :: bool
  isPaused :: bool
  generationIndexRef :: nat
  referenceImages :: "part list"
  mainStylePrompt :: string

definition msg_quota :: string where
  "msg_quota = ''API '' @ [CHR 0xE9, CHR 0x85, CHR 0x8D, CHR 0xE9, CHR 0xA2, CHR 0x9D,
     CHR 0xE5, CHR 0xB7, CHR 0xB2, CHR 0xE7, CHR 0x94, CHR 0xA8, CHR 0xE5, CHR 0xB0, CHR 0xBD,
     CHR 0xE3, CHR 0x80, CHR 0x82, CHR 0xE8, CHR 0xAF, CHR 0xB7, CHR 0xE6, CHR 0xA3, CHR 0x80,
     CHR 0xE6, CHR 0x9F, CHR 0xA5, CHR 0xE6, CHR 0x82, CHR 0xA8, CHR 0xE7, CHR 0x9A, CHR 0x84]
     @ '' Google AI '' @ [CHR 0xE8, CHR 0xAE, CHR 0xA1, CHR 0xE5, CHR 0x88, CHR 0x92,
     CHR 0xE5, CHR 0x92, CHR 0x8C, CHR 0xE8, CHR 0xB4, CHR 0xA6, CHR 0xE5, CHR 0x8D, CHR 0x95,
     CHR 0xE8, CHR 0xAF, CHR 0xA6, CHR 0xE6, CHR 0x83, CHR 0x85, CHR 0xE3, CHR 0x80, CHR 0x82]"

definition msg_server_error :: string where
  "msg_server_error = [CHR 0xE7, CHR 0x94, CHR 0x9F, CHR 0xE6, CHR 0x88, CHR 0x90,
     CHR 0xE5, CHR 0xA4, CHR 0xB1, CHR 0xE8, CHR 0xB4, CHR 0xA5] @ '' (''
     @ [CHR 0xE6, CHR 0x9C, CHR 0x8D, CHR 0xE5, CHR 0x8A, CHR 0xA1, CHR 0xE5, CHR 0x99, CHR 0xA8,
        CHR 0xE9, CHR 0x94, CHR 0x99, CHR 0xE8, CHR 0xAF, CHR 0xAF] @ '')''
     @ [CHR 0xE3, CHR 0x80, CHR 0x82, CHR 0xE8, CHR 0xAF, CHR 0xB7, CHR 0xE6, CHR 0xA3, CHR 0x80,
        CHR 0xE6, CHR 0x9F, CHR 0xA5, CHR 0xE6, CHR 0x82, CHR 0xA8, CHR 0xE7, CHR 0x9A, CHR 0x84]
     @ '' API '' @ [CHR 0xE5, CHR 0xAF, CHR 0x86, CHR 0xE9, CHR 0x92, CHR 0xA5,
        CHR 0xE8, CHR 0xAE, CHR 0xBE, CHR 0xE7, CHR 0xBD, CHR 0xAE, CHR 0xE6, CHR 0x88, CHR 0x96,
        CHR 0xE7, CHR 0xA8, CHR 0x8D, CHR 0xE5, CHR 0x90, CHR 0x8E, CHR 0xE9, CHR 0x87, CHR 0x8D,
        CHR 0xE8, CHR 0xAF, CHR 0x95, CHR 0xE3, CHR 0x80, CHR 0x82]"

definition msg_failed_prefix :: string where
  "msg_failed_prefix = [CHR 0xE7, CHR 0x94, CHR 0x9F, CHR 0xE6, CHR 0x88, CHR 0x90,
     CHR 0xE5, CHR 0xA4, CHR 0xB1, CHR 0xE8, CHR 0xB4, CHR 0xA5] @ '': ''"

definition msg_unknown_later :: string where
  "msg_unknown_later = [CHR 0xE5, CHR 0x8F, CHR 0x91, CHR 0xE7, CHR 0x94, CHR 0x9F,
     CHR 0xE6, CHR 0x9C, CHR 0xAA, CHR 0xE7, CHR 0x9F, CHR 0xA5, CHR 0xE9, CHR 0x94, CHR 0x99,
     CHR 0xE8, CHR 0xAF, CHR 0xAF, CHR 0xE3, CHR 0x80, CHR 0x82, CHR 0xE8, CHR 0xAF, CHR 0xB7,
     CHR 0xE7, CHR 0xA8, CHR 0x8D, CHR 0xE5, CHR 0x90, CHR 0x8E, CHR 0xE5, CHR 0x86, CHR 0x8D,
     CHR 0xE8, CHR 0xAF, CHR 0x95, CHR 0xE3, CHR 0x80, CHR 0x82]"

definition vip_default_style :: string where
  "vip_default_style = ''photorealistic, high detail, cinematic lighting''"

text \<open>\<open>toUpperCase\<close> on the ASCII letters.\<close>

definition to_upper :: "string \<Rightarrow> string" where
  "to_upper s =
     map (\<lambda>c. if 97 \<le> (of_char c :: nat) \<and> (of_char c :: nat) \<le> 122
              then char_of ((of_char c :: nat) - 32) else c) s"

definition mentions_quota :: "string \<Rightarrow> bool" where
  "mentions_quota errText \<longleftrightarrow>
     str_includes errText ''429'' \<or> str_includes errText ''RESOURCE_EXHAUSTED''
     \<or> str_includes errText ''quota''"

fun getErrorMessage :: "thrown \<Rightarrow> string" where
  "getErrorMessage (ThrownObject m (Some (message, api_status, code))) =
     (if to_upper api_status = ''RESOURCE_EXHAUSTED'' then msg_quota
      else if code = Some 500 then msg_server_error
      else msg_failed_prefix @ message)"
| "getErrorMessage (ThrownObject (Some errText) None) =
     (if mentions_quota errText then msg_quota else errText)"
| "getErrorMessage (ThrownObject None None) = msg_unknown_later"
| "getErrorMessage (ThrownString err) =
     (if mentions_quota err then msg_quota else err)"
| "getErrorMessage ThrownOther = msg_unknown_later"

subsection \<open>Translation\<close>

definition separator :: string where
  "separator = ''|||---|||''"

text \<open>\<open>xs.join(sep)\<close>.\<close>

fun js_join :: "string \<Rightarrow> string list \<Rightarrow> string" where
  "js_join sep [] = []"
| "js_join sep [x] = x"
| "js_join sep (x # y # ys) = x @ sep @ js_join sep (y # ys)"

text \<open>
  \<open>s.split(sep)\<close> for a separator that is not empty: \<open>cur\<close> is the piece being read.
\<close>

function js_split_from :: "string \<Rightarrow> string \<Rightarrow> string \<Rightarrow> string list" where
  "js_split_from sep cur [] = [cur]"
| "js_split_from sep cur (c # cs) =
     (if sep \<noteq> [] \<and> prefix sep (c # cs)
      then cur # js_split_from sep [] (drop (length sep) (c # cs))
      else js_split_from sep (cur @ [c]) cs)"
  by pat_completeness auto
termination
  by (relation "measure (\<lambda>(sep, cur, s). length s)") (auto simp: Suc_le_eq)

definition js_split :: "string \<Rightarrow> string \<Rightarrow> string list" where
  "js_split sep s = js_split_from sep [] s"

text \<open>
  \<open>s.trim()\<close>: the white space and line terminator characters, by their encodings, are
  stripped from both ends.
\<close>

definition white_space :: "string list" where
  "white_space =
     [[CHR 0x09], [CHR 0x0A], [CHR 0x0B], [CHR 0x0C], [CHR 0x0D], [CHR 0x20],
      [CHR 0xC2, CHR 0xA0], [CHR 0xE1, CHR 0x9A, CHR 0x80]]
     @ map (\<lambda>n. [CHR 0xE2, CHR 0x80, char_of n]) [0x80 ..< (0x8B :: nat)]
     @ [[CHR 0xE2, CHR 0x80, CHR 0xA8], [CHR 0xE2, CHR 0x80, CHR 0xA9],
        [CHR 0xE2, CHR 0x80, CHR 0xAF], [CHR 0xE2, CHR 0x81, CHR 0x9F],
        [CHR 0xE3, CHR 0x80, CHR 0x80], [CHR 0xEF, CHR 0xBB, CHR 0xBF]]"

function strip_start :: "string list \<Rightarrow> string \<Rightarrow> string" where
  "strip_start ws s =
     (case find (\<lambda>w. w \<noteq> [] \<and> prefix w s) ws of
        None \<Rightarrow> s
      | Some w \<Rightarrow> strip_start ws (drop (length w) s))"
  by pat_completeness auto
termination
proof (relation "measure (\<lambda>(ws, s). length s)")
  show "wf (measure (\<lambda>(ws, s). length s))" by simp
next
  fix ws :: "string list" and s w :: string
  assume "find (\<lambda>w. w \<noteq> [] \<and> prefix w s) ws = Some w"
  then have "w \<noteq> []" "prefix w s" by (auto simp: find_Some_iff)
  then have "length (drop (length w) s) < length s"
    by (cases s) (auto simp: prefix_def)
  then show "((ws, drop (length w) s), (ws, s)) \<in> measure (\<lambda>(ws, s). length s)" by simp
qed

declare strip_start.simps [simp del]

definition js_trim :: "string \<Rightarrow> string" where
  "js_trim s = rev (strip_start (map rev white_space) (rev (strip_start white_space s)))"

definition translate_prompt :: "string \<Rightarrow> string" where
  "translate_prompt combinedText =
     ''Translate the following list of creative prompts from Chinese to English. The prompts are separated by ''
     @ [CHR 0x22] @ separator @ [CHR 0x22]
     @ ''. Maintain the original meaning and creative intent of each prompt. Return the translated prompts separated by the exact same separator. Do not add any other text or explanation.''
     @ [CHR 0x0A, CHR 0x0A] @ ''    Prompts:'' @ [CHR 0x0A] @ ''    '' @ combinedText"

text \<open>
  \<open>translatePromptsToEnglish\<close>; \<open>model\<close> is the backend: the request text to a rejected
  promise or \<open>response.text\<close>.
\<close>

definition translatePromptsToEnglish ::
  "(string \<Rightarrow> thrown + string) \<Rightarrow> string list \<Rightarrow> thrown + string list" where
  "translatePromptsToEnglish model prompts =
     (if length prompts = 0 then Inr []
      else
        let combinedText = js_join separator prompts
        in (case model (translate_prompt combinedText) of
              Inl t \<Rightarrow> Inl t
            | Inr text \<Rightarrow>
                let translatedText = js_trim text;
                    translatedPrompts = js_split separator translatedText
                in if length translatedPrompts \<noteq> length prompts then Inr prompts
                   else Inr translatedPrompts))"

text \<open>\<open>xs[i]\<close>, \<open>undefined\<close> out of range.\<close>

definition nth_opt :: "'a list \<Rightarrow> nat \<Rightarrow> 'a option" where
  "nth_opt xs i = (if i < length xs then Some (xs ! i) else None)"

text \<open>
  \<open>handleTranslateAll\<close>. The call is not wrapped in \<open>try\<close>: a rejection leaves the state as
  it is and is returned as \<open>Inl\<close>. The state updater runs on the task list as it is when
  the call settles, taken here to be the list the prompts were read from.
\<close>

definition handleTranslateAll ::
  "(string \<Rightarrow> thrown + string) \<Rightarrow> vip_state \<Rightarrow> thrown + vip_state" where
  "handleTranslateAll model st =
     (if length (tasks st) = 0 \<or> isGenerating st then Inr st
      else
        let originalPrompts = map v_prompt (tasks st)
        in (case translatePromptsToEnglish model originalPrompts of
              Inl t \<Rightarrow> Inl t
            | Inr translatedPrompts \<Rightarrow>
                Inr (st\<lparr>tasks :=
                       map (\<lambda>(i, task).
                              task\<lparr>v_prompt := js_or (nth_opt translatedPrompts i) (originalPrompts ! i)\<rparr>)
                           (enumerate 0 (tasks st))\<rparr>)))"

subsection \<open>Generation\<close>

text \<open>
  What one invocation of \<open>processGenerationQueue\<close> closes over: the values of the render
  in which the callback was created. They do not change while the invocation runs.
\<close>

record closure =
  cap_isPaused :: bool
  cap_tasks :: "VipTask list"
  cap_referenceImages :: "part list"
  cap_mainStylePrompt :: string

definition render :: "vip_state \<Rightarrow> closure" where
  "render st =
     \<lparr> cap_isPaused = isPaused st, cap_tasks = tasks st,
       cap_referenceImages = referenceImages st, cap_mainStylePrompt = mainStylePrompt st \<rparr>"

definition handlePause :: "vip_state \<Rightarrow> vip_state" where
  "handlePause st = st\<lparr>isPaused := True\<rparr>"

text \<open>The three state updates of a task: marked generating, completed, failed.\<close>

definition mark_generating :: "nat \<Rightarrow> vip_state \<Rightarrow> vip_state" where
  "mark_generating tid st =
     st\<lparr>tasks := map (\<lambda>t. if v_id t = tid then t\<lparr>v_status := VipGenerating\<rparr> else t) (tasks st)\<rparr>"

definition mark_settled :: "nat \<Rightarrow> thrown + string list \<Rightarrow> vip_state \<Rightarrow> vip_state" where
  "mark_settled tid outcome st =
     (case outcome of
        Inr imgs \<Rightarrow>
          st\<lparr>tasks := map (\<lambda>t. if v_id t = tid
                               then t\<lparr>v_status := VipCompleted, v_imageUrl := nth_opt imgs 0\<rparr>
                               else t) (tasks st)\<rparr>
      | Inl err \<Rightarrow>
          let errorMessage = getErrorMessage err
          in st\<lparr>tasks := map (\<lambda>t. if v_id t = tid
                                  then t\<lparr>v_status := VipFailed, v_error := Some errorMessage\<rparr>
                                  else t) (tasks st)\<rparr>)"

text \<open>The gateway call for one batch item.\<close>

definition vip_call ::
  "backend \<Rightarrow> string \<Rightarrow> part list \<Rightarrow> VipTask \<Rightarrow> thrown + string list" where
  "vip_call be stylePrompt refs task =
     snd (generateStyledImages be (if truthy stylePrompt then stylePrompt else vip_default_style)
            (v_prompt task) 1 ''16:9'' (Some refs))"

text \<open>
  The \<open>for\<close> loop of \<open>processGenerationQueue\<close>, from index \<open>i\<close>. \<open>be i\<close> is the backend as it
  answers the call for item \<open>i\<close>; \<open>paused_during i\<close> tells whether \<open>handlePause\<close> runs while
  that call is outstanding. The tests of \<open>isPaused\<close> read the captured value.
\<close>

function generation_loop ::
  "closure \<Rightarrow> (nat \<Rightarrow> backend) \<Rightarrow> (nat \<Rightarrow> bool) \<Rightarrow> nat \<Rightarrow> vip_state \<Rightarrow> vip_state" where
  "generation_loop cap be paused_during i st =
     (if i < length (cap_tasks cap) then
        if cap_isPaused cap then st\<lparr>generationIndexRef := i, isGenerating := False\<rparr>
        else
          let task = cap_tasks cap ! i
          in if v_status task = VipCompleted
             then generation_loop cap be paused_during (i + 1) st
             else
               let st1 = mark_generating (v_id task) st;
                   st2 = (if paused_during i then handlePause st1 else st1);
                   outcome = vip_call (be i) (cap_mainStylePrompt cap) (cap_referenceImages cap) task;
                   st3 = mark_settled (v_id task) outcome st2
               in generation_loop cap be paused_during (i + 1) st3
      else st\<lparr>isGenerating := False, generationIndexRef := 0\<rparr>)"
  by pat_completeness auto
termination
  by (relation "measure (\<lambda>(cap, be, pd, i, st). length (cap_tasks cap) - i)") auto

declare generation_loop.simps [simp del]

definition processGenerationQueue ::
  "closure \<Rightarrow> (nat \<Rightarrow> backend) \<Rightarrow> (nat \<Rightarrow> bool) \<Rightarrow> vip_state \<Rightarrow> vip_state" where
  "processGenerationQueue cap be paused_during st =
     (if cap_isPaused cap then st\<lparr>isGenerating := False\<rparr>
      else generation_loop cap be paused_during (generationIndexRef st) (st\<lparr>isGenerating := True\<rparr>))"

text \<open>
  The effect that starts the loop: after a render with \<open>isGenerating\<close> set and \<open>isPaused\<close>
  clear it invokes the callback of that render. Here one invocation is followed from
  its start to its return with nothing else running in between; the component as a
  whole, where every change of the task list runs the effect again, is the machine
  below.
\<close>

definition generation_effect ::
  "(nat \<Rightarrow> backend) \<Rightarrow> (nat \<Rightarrow> bool) \<Rightarrow> vip_state \<Rightarrow> vip_state" where
  "generation_effect be paused_during st =
     (if isGenerating st \<and> \<not> isPaused st
      then processGenerationQueue (render st) be paused_during st
      else st)"

definition handleGenerateAll :: "vip_state \<Rightarrow> vip_state" where
  "handleGenerateAll st = st\<lparr>generationIndexRef := 0, isPaused := False, isGenerating := True\<rparr>"

definition handleResume :: "vip_state \<Rightarrow> vip_state" where
  "handleResume st = st\<lparr>isPaused := False, isGenerating := True\<rparr>"

text \<open>
  \<open>handleGenerateSingleTask\<close> is asynchronous. \<open>_guard\<close> is the part before the first
  \<open>await\<close>, on the values of the render the handler belongs to: it gives the task to
  regenerate, or nothing. \<open>_dispatch\<close> is the state update made once the reference images
  are converted, right before the gateway call; \<open>_settle\<close> is the continuation after the
  call. The parameter \<open>taskId\<close> of the source is \<open>tId\<close>.
\<close>

definition handleGenerateSingleTask_guard :: "nat \<Rightarrow> vip_state \<Rightarrow> VipTask option" where
  "handleGenerateSingleTask_guard tId st =
     (case find (\<lambda>t. v_id t = tId) (tasks st) of
        None \<Rightarrow> None
      | Some task \<Rightarrow> if isGenerating st then None else Some task)"

definition handleGenerateSingleTask_dispatch :: "nat \<Rightarrow> vip_state \<Rightarrow> vip_state" where
  "handleGenerateSingleTask_dispatch tId st =
     st\<lparr>tasks := map (\<lambda>t. if v_id t = tId
                            then t\<lparr>v_status := VipGenerating, v_error := None\<rparr> else t)
                       (tasks st)\<rparr>"

definition handleGenerateSingleTask_settle ::
  "nat \<Rightarrow> thrown + string list \<Rightarrow> vip_state \<Rightarrow> vip_state" where
  "handleGenerateSingleTask_settle tId outcome st = mark_settled tId outcome st"

subsection \<open>The component as a machine\<close>

text \<open>
  An asynchronous function suspended at an \<open>await\<close>, with the values it closed over:
  \<open>processGenerationQueue\<close> waiting for the reference images or for the gateway call of
  item \<open>i\<close>, \<open>handleGenerateSingleTask\<close> waiting for the reference images or for its call.
  A function that has returned leaves \<open>Returned\<close> in its place.
\<close>

datatype continuation =
    BatchParts closure
  | BatchCall closure nat
  | SingleParts closure VipTask
  | SingleCall closure VipTask
  | Returned

text \<open>
  The component between events. \<open>current\<close> is the current state and ref; \<open>shown\<close> holds the
  values of the last committed render, which the click handlers close over;
  \<open>tasks_identity\<close> counts the calls of \<open>setTasks\<close>, each of which builds a new array;
  \<open>effect_deps\<close> are the dependencies the generation effect last ran with
  (\<open>isGenerating\<close>, \<open>isPaused\<close>, and the callback, which is rebuilt when \<open>tasks\<close> or \<open>isPaused\<close>
  changes; the reference images and the style prompt are not changed by any event
  here); \<open>suspended\<close> are the asynchronous functions in progress.
\<close>

record vip_run =
  current :: vip_state
  shown :: vip_state
  tasks_identity :: nat
  effect_deps :: "bool \<times> bool \<times> nat"
  suspended :: "continuation list"

text \<open>The component after mounting in state \<open>st\<close>: the effect has run once.\<close>

definition mounted :: "vip_state \<Rightarrow> vip_run" where
  "mounted st =
     \<lparr> current = st, shown = st, tasks_identity = 0,
       effect_deps = (isGenerating st, isPaused st, 0), suspended = [] \<rparr>"

text \<open>\<open>processGenerationQueue\<close> up to its first \<open>await\<close>.\<close>

definition processGenerationQueue_start :: "closure \<Rightarrow> vip_state \<Rightarrow> vip_state \<times> continuation" where
  "processGenerationQueue_start cap st =
     (if cap_isPaused cap then (st\<lparr>isGenerating := False\<rparr>, Returned)
      else (st\<lparr>isGenerating := True\<rparr>, BatchParts cap))"

text \<open>
  The \<open>for\<close> loop from index \<open>i\<close> up to its next \<open>await\<close> or its return. The result tells
  whether \<open>setTasks\<close> was called, and how the function is suspended.
\<close>

function batch_advance :: "closure \<Rightarrow> nat \<Rightarrow> vip_state \<Rightarrow> vip_state \<times> bool \<times> continuation" where
  "batch_advance cap i st =
     (if i < length (cap_tasks cap) then
        if cap_isPaused cap
        then (st\<lparr>generationIndexRef := i, isGenerating := False\<rparr>, False, Returned)
        else
          let task = cap_tasks cap ! i
          in if v_status task = VipCompleted then batch_advance cap (i + 1) st
             else (mark_generating (v_id task) st, True, BatchCall cap i)
      else (st\<lparr>isGenerating := False, generationIndexRef := 0\<rparr>, False, Returned))"
  by pat_completeness auto
termination
  by (relation "measure (\<lambda>(cap, i, st). length (cap_tasks cap) - i)") auto

declare batch_advance.simps [simp del]

text \<open>
  What can happen: the four buttons; a commit, in which React renders the current
  state and runs the effects whose dependencies changed; the reference images of the
  \<open>k\<close>-th suspended function becoming ready; the gateway call of the \<open>k\<close>-th suspended
  function settling, answered by a backend.
\<close>

datatype vip_event =
    ClickGenerateAll
  | ClickPause
  | ClickResume
  | ClickGenerateSingle nat
  | Commit
  | PartsReady nat
  | CallSettled nat backend

definition resume_parts :: "nat \<Rightarrow> vip_run \<Rightarrow> vip_run" where
  "resume_parts k r =
     (if k < length (suspended r) then
        (case suspended r ! k of
           BatchParts cap \<Rightarrow>
             let (st, changed, c) = batch_advance cap (generationIndexRef (current r)) (current r)
             in r\<lparr>current := st,
                  tasks_identity := (if changed then Suc (tasks_identity r) else tasks_identity r),
                  suspended := (suspended r)[k := c]\<rparr>
         | SingleParts cap task \<Rightarrow>
             r\<lparr>current := handleGenerateSingleTask_dispatch (v_id task) (current r),
                tasks_identity := Suc (tasks_identity r),
                suspended := (suspended r)[k := SingleCall cap task]\<rparr>
         | _ \<Rightarrow> r)
      else r)"

definition resume_call :: "nat \<Rightarrow> backend \<Rightarrow> vip_run \<Rightarrow> vip_run" where
  "resume_call k be r =
     (if k < length (suspended r) then
        (case suspended r ! k of
           BatchCall cap i \<Rightarrow>
             let task = cap_tasks cap ! i;
                 outcome = vip_call be (cap_mainStylePrompt cap) (cap_referenceImages cap) task;
                 (st, changed, c) =
                   batch_advance cap (i + 1) (mark_settled (v_id task) outcome (current r))
             in r\<lparr>current := st,
                  tasks_identity := (if changed then tasks_identity r + 2 else tasks_identity r + 1),
                  suspended := (suspended r)[k := c]\<rparr>
         | SingleCall cap task \<Rightarrow>
             let outcome = vip_call be (cap_mainStylePrompt cap) (cap_referenceImages cap) task
             in r\<lparr>current := handleGenerateSingleTask_settle (v_id task) outcome (current r),
                  tasks_identity := Suc (tasks_identity r),
                  suspended := (suspended r)[k := Returned]\<rparr>
         | _ \<Rightarrow> r)
      else r)"

text \<open>
  A commit. The generation effect runs when one of its dependencies differs from the
  last run, and then invokes the callback of this render if \<open>isGenerating\<close> is set and
  \<open>isPaused\<close> is clear.
\<close>

definition commit :: "vip_run \<Rightarrow> vip_run" where
  "commit r =
     (let deps = (isGenerating (current r), isPaused (current r), tasks_identity r);
          r1 = r\<lparr>shown := current r, effect_deps := deps\<rparr>
      in if deps \<noteq> effect_deps r \<and> isGenerating (current r) \<and> \<not> isPaused (current r)
         then
           let (st, c) = processGenerationQueue_start (render (current r)) (current r)
           in r1\<lparr>current := st, suspended := suspended r @ [c]\<rparr>
         else r1)"

fun vip_step :: "vip_run \<Rightarrow> vip_event \<Rightarrow> vip_run" where
  "vip_step r ClickGenerateAll = r\<lparr>current := handleGenerateAll (current r)\<rparr>"
| "vip_step r ClickPause = r\<lparr>current := handlePause (current r)\<rparr>"
| "vip_step r ClickResume = r\<lparr>current := handleResume (current r)\<rparr>"
| "vip_step r (ClickGenerateSingle tId) =
     (case handleGenerateSingleTask_guard tId (shown r) of
        None \<Rightarrow> r
      | Some task \<Rightarrow> r\<lparr>suspended := suspended r @ [SingleParts (render (shown r)) task]\<rparr>)"
| "vip_step r Commit = commit r"
| "vip_step r (PartsReady k) = resume_parts k r"
| "vip_step r (CallSettled k be) = resume_call k be r"

definition vip_after :: "vip_state \<Rightarrow> vip_event list \<Rightarrow> vip_run" where
  "vip_after st events = foldl vip_step (mounted st) events"

text \<open>The gateway calls that are outstanding.\<close>

fun is_call :: "continuation \<Rightarrow> bool" where
  "is_call (BatchCall cap i) = True"
| "is_call (SingleCall cap task) = True"
| "is_call c = False"

definition outstanding_calls :: "vip_run \<Rightarrow> continuation list" where
  "outstanding_calls r = filter is_call (suspended r)"

text \<open>The identifiers of the items those calls are for.\<close>

fun called_item :: "continuation \<Rightarrow> nat" where
  "called_item (BatchCall cap i) = v_id (cap_tasks cap ! i)"
| "called_item (SingleCall cap task) = v_id task"
| "called_item c = 0"

definition outstanding_items :: "vip_run \<Rightarrow> nat list" where
  "outstanding_items r = map called_item (outstanding_calls r)"

section \<open>The task queue as a machine\<close>

text \<open>
  The component state together with the gateway calls that have been dispatched and
  have not settled yet; each outstanding call holds the task its continuation closed
  over.
\<close>

record queue_run =
  app :: app_state
  outstanding :: "Task list"

text \<open>
  What can happen to the component: a submission, an invocation of \<open>processQueue\<close> by
  the effect, the settlement of the oldest outstanding call, a firing of a progress
  timer or of a decay timeout, and the three collection handlers.
\<close>

datatype queue_event =
    Enqueue string string Task
  | EffectRun
  | Settle "thrown + string list"
  | Tick string
  | Decay string
  | DeleteImage string int int
  | RestoreImage string int int
  | PermanentlyDeleteImage int int

fun queue_step :: "queue_run \<Rightarrow> queue_event \<Rightarrow> queue_run" where
  "queue_step r (Enqueue tid dateString details) = r\<lparr>app := enqueueTask tid dateString details (app r)\<rparr>"
| "queue_step r EffectRun =
     (case processQueue_begin (app r) of
        (st, None) \<Rightarrow> r\<lparr>app := st\<rparr>
      | (st, Some task) \<Rightarrow> \<lparr> app = st, outstanding = outstanding r @ [task] \<rparr>)"
| "queue_step r (Settle outcome) =
     (case outstanding r of
        [] \<Rightarrow> r
      | task # rest \<Rightarrow> \<lparr> app = processQueue_settle task outcome (app r), outstanding = rest \<rparr>)"
| "queue_step r (Tick tid) = r\<lparr>app := progress_tick tid (app r)\<rparr>"
| "queue_step r (Decay tid) = r\<lparr>app := progress_decay tid (app r)\<rparr>"
| "queue_step r (DeleteImage trashDate g i) = r\<lparr>app := handleDeleteImage trashDate g i (app r)\<rparr>"
| "queue_step r (RestoreImage dateString g i) = r\<lparr>app := handleRestoreImage dateString g i (app r)\<rparr>"
| "queue_step r (PermanentlyDeleteImage g i) = r\<lparr>app := handlePermanentlyDeleteImage g i (app r)\<rparr>"

definition queue_after :: "app_state \<Rightarrow> queue_event list \<Rightarrow> queue_run" where
  "queue_after st events = foldl queue_step \<lparr> app = st, outstanding = [] \<rparr> events"

text \<open>At most one call is outstanding, and then the queue is marked as processing.\<close>

definition single_flight :: "queue_run \<Rightarrow> bool" where
  "single_flight r \<longleftrightarrow>
     length (outstanding r) \<le> 1 \<and> (outstanding r \<noteq> [] \<longrightarrow> isProcessing (app r))"

section \<open>Example inputs\<close>

text \<open>A backend that answers a text-only request with two images.\<close>

definition backend_two :: backend where
  "backend_two =
     \<lparr> generateContent = (\<lambda>q i. Inl ThrownOther),
       generateImages = (\<lambda>q. Inr (Some [''AAAA'', ''BBBB''])) \<rparr>"



text \<open>A backend whose every call is rejected with an \<open>Error\<close>.\<close>

definition backend_down :: backend where
  "backend_down =
     \<lparr> generateContent = (\<lambda>q i. Inl (new_Error ''503'')),
       generateImages = (\<lambda>q. Inl (new_Error ''503'')) \<rparr>"

definition cat_task :: Task where
  "cat_task =
     \<lparr> t_id = [], t_contentPrompt = ''a cat'', t_numImages = 2, t_aspectRatio = ''16:9'',
       t_styleDescription = None, t_referenceImageParts = None \<rparr>"

definition empty_state :: app_state where
  "empty_state =
     \<lparr> taskQueue = [], isProcessing = False, imageGroups = [], trash = [],
       app_error = None, progressIntervals = {} \<rparr>"

text \<open>The state after submitting the example task on day \<open>d1\<close>.\<close>

definition cat_queued :: app_state where
  "cat_queued = enqueueTask ''t1'' ''d1'' cat_task empty_state"

text \<open>The example task dispatched: the state while its call is outstanding.\<close>

definition cat_dispatched :: app_state where
  "cat_dispatched = fst (processQueue_begin cat_queued)"

text \<open>A gallery holding one completed image.\<close>

definition gallery_one :: app_state where
  "gallery_one =
     \<lparr> taskQueue = [], isProcessing = False,
       imageGroups = [\<lparr> date = ''d1'', images =
          [\<lparr> item_id = ''a'', name = ''a cat'', status = Completed, url = Some ''data:x'',
              progress = None, taskId = Some ''t0'', styleDescription = ''s'',
              contentPrompt = ''a cat'', error = None \<rparr>] \<rparr>],
       trash = [], app_error = None, progressIntervals = {} \<rparr>"

text \<open>
  A page reload while the example task is outstanding, then a second task submitted on
  day \<open>d2\<close> and run to a successful settlement.
\<close>

definition stale_run :: app_state where
  "stale_run =
     processQueue_run backend_two 0 (enqueueTask ''t2'' ''d2'' cat_task (reload cat_dispatched))"

text \<open>Two batch items, both pending, nothing running.\<close>

definition two_pending :: vip_state where
  "two_pending =
     \<lparr> tasks =
         [\<lparr> v_id = 0, v_name = ''BG-01-01'', v_prompt = ''a'', v_status = VipPending,
            v_imageUrl = None, v_error = None \<rparr>,
          \<lparr> v_id = 1, v_name = ''BG-01-02'', v_prompt = ''b'', v_status = VipPending,
            v_imageUrl = None, v_error = None \<rparr>],
       isGenerating = False, isPaused = False, generationIndexRef = 0,
       referenceImages = [], mainStylePrompt = [] \<rparr>"

text \<open>
  \<open>generateAll\<close> on the two items, with \<open>pause\<close> pressed while the call for item 0 is
  outstanding.
\<close>

definition paused_batch :: vip_state where
  "paused_batch =
     generation_effect (\<lambda>i. backend_two) (\<lambda>i. i = 0) (handleGenerateAll two_pending)"

text \<open>
  \<open>generateAll\<close> on the two items. The first invocation of the loop marks item 0 and
  dispatches its call; the commit of the new task list runs the effect again, and the
  second invocation, starting from the cursor, reaches its first call.
\<close>

definition batch_overlap :: vip_run where
  "batch_overlap =
     vip_after two_pending [ClickGenerateAll, Commit, PartsReady 0, Commit, PartsReady 1]"

text \<open>
  The same, with the first call settling before the second invocation gets its
  reference images.
\<close>

definition batch_overlap_late :: vip_run where
  "batch_overlap_late =
     vip_after two_pending
       [ClickGenerateAll, Commit, PartsReady 0, Commit, CallSettled 0 backend_two, PartsReady 1]"

text \<open>
  \<open>generateAll\<close>, then \<open>pause\<close> while the call for item 0 is outstanding, then that call
  settling.
\<close>

definition paused_machine :: vip_run where
  "paused_machine =
     vip_after two_pending
       [ClickGenerateAll, Commit, PartsReady 0, ClickPause, Commit, CallSettled 0 backend_two]"

text \<open>Two single-item regenerations, the second started while the first is outstanding.\<close>

definition two_singles :: vip_run where
  "two_singles =
     vip_after two_pending
       [ClickGenerateSingle 0, PartsReady 0, Commit, ClickGenerateSingle 1, PartsReady 1]"

text \<open>A translation backend whose answer has an empty first piece.\<close>

definition model_empty_first :: "string \<Rightarrow> thrown + string" where
  "model_empty_first q = Inr ''|||---|||B''"

text \<open>A translation backend whose answer has two pieces.\<close>

definition model_two_pieces :: "string \<Rightarrow> thrown + string" where
  "model_two_pieces q = Inr ''A|||---|||B''"

section \<open>Properties of the gateway\<close>

lemma style_loop_truthy:
  "style_loop call q i k acc = (sent, Inr res) \<Longrightarrow> \<forall>a \<in> set acc. truthy a
     \<Longrightarrow> \<forall>a \<in> set res. truthy a"
proof (induction k arbitrary: i acc sent)
  case 0
  then show ?case by simp
next
  case (Suc k)
  show ?case
  proof (cases "call i")
    case (Inl t)
    with Suc.prems show ?thesis by simp
  next
    case (Inr r)
    show ?thesis
    proof (cases "truthy_opt (blockReason r)")
      case True
      with Inr Suc.prems show ?thesis by simp
    next
      case False
      show ?thesis
      proof (cases "find is_inline (parts r)")
        case None
        with Inr False Suc.prems obtain sent' where
          "style_loop call q (i + 1) k acc = (sent', Inr res)"
          by (auto split: prod.splits)
        with Suc.IH Suc.prems(2) show ?thesis by blast
      next
        case (Some p)
        then have "is_inline p" by (auto simp: find_Some_iff)
        then have tp: "truthy (data_url p)" by (cases p) (auto simp: truthy_def)
        from Inr False Some Suc.prems obtain sent' where
          "style_loop call q (i + 1) k (acc @ [data_url p]) = (sent', Inr res)"
          by (auto split: prod.splits)
        moreover have "\<forall>a \<in> set (acc @ [data_url p]). truthy a"
          using Suc.prems(2) tp by auto
        ultimately show ?thesis using Suc.IH by blast
      qed
    qed
  qed
qed

lemma generateStyledImages_artifacts:
  assumes "snd (generateStyledImages be s p n ar refs) = Inr arts"
  shows "arts \<noteq> [] \<and> (\<forall>a \<in> set arts. truthy a)"
proof (cases "refs \<noteq> None \<and> length (the refs) > 0")
  case True
  obtain sent res where sl:
    "style_loop (generateContent be (style_request s p (the refs))) (style_request s p (the refs)) 0 n [] = (sent, res)"
    by (cases "style_loop (generateContent be (style_request s p (the refs))) (style_request s p (the refs)) 0 n []")
  from assms True sl have "res = Inr arts \<and> arts \<noteq> []"
    by (auto simp: generateStyledImages_def Let_def split: sum.splits if_splits)
  moreover from this sl have "\<forall>a \<in> set arts. truthy a"
    using style_loop_truthy[of _ _ 0 n "[]" sent arts] by simp
  ultimately show ?thesis by simp
next
  case False
  with assms show ?thesis
    by (auto simp: generateStyledImages_def Let_def truthy_def
        split: sum.splits option.splits if_splits)
qed











section \<open>The task queue: reconciling a settled call\<close>

lemma gallery_items_simps [simp]:
  "gallery_items [] = []"
  "gallery_items (g # gs) = images g @ gallery_items gs"
  by (simp_all add: gallery_items_def)

lemma task_items_update:
  assumes "\<And>img. taskId (u img) = taskId img"
  shows "task_items tid (updateImageStatus tid u gs) = map u (task_items tid gs)"
proof -
  have one: "filter (\<lambda>img. taskId img = Some tid)
           (map (\<lambda>img. if taskId img = Some tid then u img else img) xs)
         = map u (filter (\<lambda>img. taskId img = Some tid) xs)" for xs
    by (induction xs) (auto simp: assms)
  show ?thesis
    unfolding task_items_def
    by (induction gs) (auto simp: updateImageStatus_def one)
qed

lemma structure_update:
  assumes "\<And>img. item_id (u img) = item_id img"
  shows "map (\<lambda>g. (date g, map item_id (images g))) (updateImageStatus tid u gs)
       = map (\<lambda>g. (date g, map item_id (images g))) gs"
  by (induction gs) (auto simp: updateImageStatus_def assms)

lemma tick_image_keeps:
  "taskId (tick_image tid img) = taskId img"
  "status (tick_image tid img) = status img"
  "item_id (tick_image tid img) = item_id img"
  by (simp_all add: tick_image_def Let_def)

lemma rev_last_butlast: "xs \<noteq> [] \<Longrightarrow> rev xs = last xs # rev (butlast xs)"
  by (cases xs rule: rev_cases) simp_all

lemma assign_images_append:
  "assign_images task (xs @ ys) arts =
     (let (xs', left) = assign_images task xs arts;
          (ys', left') = assign_images task ys left
      in (xs' @ ys', left'))"
  by (induction xs arbitrary: arts) (auto simp: Let_def split: prod.splits)

lemma assign_groups_flat:
  "gallery_items (fst (assign_groups task gs arts))
     = filter (\<lambda>img. status img \<noteq> Generating) (fst (assign_images task (gallery_items gs) arts))
   \<and> snd (assign_groups task gs arts) = snd (assign_images task (gallery_items gs) arts)"
proof (induction gs arbitrary: arts)
  case Nil
  then show ?case by simp
next
  case (Cons g gs)
  obtain imgs left where a: "assign_images task (images g) arts = (imgs, left)"
    by (cases "assign_images task (images g) arts")
  obtain rest' left' where b: "assign_groups task gs left = (rest', left')"
    by (cases "assign_groups task gs left")
  obtain flat left2 where c: "assign_images task (gallery_items gs) left = (flat, left2)"
    by (cases "assign_images task (gallery_items gs) left")
  from Cons.IH[of left] b c
  have "gallery_items rest' = filter (\<lambda>img. status img \<noteq> Generating) flat" "left' = left2"
    by simp_all
  with a b c show ?case
    by (simp add: assign_images_append)
qed

lemma assign_images_task:
  assumes "\<forall>a \<in> set arts. truthy a"
  shows "filter (\<lambda>img. taskId img = Some (t_id task)) (fst (assign_images task xs arts))
       = map (\<lambda>(a, img). complete_image task a img)
           (zip (rev arts) (filter (\<lambda>img. taskId img = Some (t_id task)) xs))
         @ drop (length arts) (filter (\<lambda>img. taskId img = Some (t_id task)) xs)"
  using assms
proof (induction xs arbitrary: arts)
  case Nil
  then show ?case by simp
next
  case (Cons img rest)
  show ?case
  proof (cases "taskId img = Some (t_id task) \<and> arts \<noteq> []")
    case True
    then have r: "rev arts = last arts # rev (butlast arts)" by (simp add: rev_last_butlast)
    have t: "truthy (last arts)" using True Cons.prems by simp
    have "\<forall>a \<in> set (butlast arts). truthy a"
      using Cons.prems by (meson in_set_butlastD)
    from Cons.IH[OF this] have ih:
      "filter (\<lambda>img. taskId img = Some (t_id task)) (fst (assign_images task rest (butlast arts)))
       = map (\<lambda>(a, img). complete_image task a img)
           (zip (rev (butlast arts)) (filter (\<lambda>img. taskId img = Some (t_id task)) rest))
         @ drop (length (butlast arts)) (filter (\<lambda>img. taskId img = Some (t_id task)) rest)" .
    obtain rest' left where a: "assign_images task rest (butlast arts) = (rest', left)"
      by (cases "assign_images task rest (butlast arts)")
    have tk: "taskId (complete_image task (last arts) img) = Some (t_id task)"
      using True by (simp add: complete_image_def)
    have len: "length arts = Suc (length (butlast arts))" using True by simp
    show ?thesis
      using True t ih a tk
      by (simp add: r len del: length_butlast)
  next
    case False
    obtain rest' left where a: "assign_images task rest arts = (rest', left)"
      by (cases "assign_images task rest arts")
    from Cons.IH[OF Cons.prems] a False show ?thesis
      by (cases "arts = []") auto
  qed
qed

lemma task_items_map_images:
  assumes "\<And>img. taskId (f img) = taskId img"
  shows "task_items tid (map (\<lambda>grp. grp\<lparr>images := map f (images grp)\<rparr>) gs)
       = map f (task_items tid gs)"
proof -
  have one: "filter (\<lambda>img. taskId img = Some tid) (map f xs)
           = map f (filter (\<lambda>img. taskId img = Some tid) xs)" for xs
    by (induction xs) (auto simp: assms)
  show ?thesis
    unfolding task_items_def
    by (induction gs) (auto simp: one)
qed

lemma structure_map_images:
  assumes "\<And>img. item_id (f img) = item_id img"
  shows "map (\<lambda>g. (date g, map item_id (images g))) (map (\<lambda>grp. grp\<lparr>images := map f (images grp)\<rparr>) gs)
       = map (\<lambda>g. (date g, map item_id (images g))) gs"
  by (induction gs) (auto simp: assms)

lemma in_flight_start:
  "in_flight tid st (startProgress tid (st\<lparr>isProcessing := True, app_error := None\<rparr>))"
  by (simp add: in_flight_def startProgress_def task_items_update structure_update comp_def)

lemma in_flight_tick:
  assumes "in_flight tid st st'"
  shows "in_flight tid st (progress_tick tid st')"
  using assms
  by (simp add: in_flight_def progress_tick_def task_items_map_images structure_map_images
      tick_image_keeps comp_def)

lemma in_flight_ticks:
  "in_flight tid st st' \<Longrightarrow> in_flight tid st ((progress_tick tid ^^ n) st')"
  by (induction n) (simp_all add: in_flight_tick)

lemma processQueue_begin_dispatch:
  assumes "\<not> isProcessing st" "taskQueue st = task # rest"
  shows "processQueue_begin st
       = (startProgress (t_id task) (st\<lparr>isProcessing := True, app_error := None\<rparr>), Some task)"
  using assms by (simp add: processQueue_begin_def)

lemma processQueue_run_unfold:
  assumes "\<not> isProcessing st" "taskQueue st = task # rest"
  shows "processQueue_run be n st
       = processQueue_settle task (snd (task_call be task))
           ((progress_tick (t_id task) ^^ n)
              (startProgress (t_id task) (st\<lparr>isProcessing := True, app_error := None\<rparr>)))"
  using assms by (simp add: processQueue_run_def processQueue_begin_dispatch)

lemma task_items_assign_groups:
  assumes "\<forall>a \<in> set arts. truthy a"
    and "\<forall>img \<in> set (task_items (t_id task) gs). status img = Generating"
  shows "task_items (t_id task) (fst (assign_groups task gs arts))
       = map (\<lambda>(a, img). complete_image task a img) (zip (rev arts) (task_items (t_id task) gs))"
proof -
  let ?P = "\<lambda>img. taskId img = Some (t_id task)"
  let ?Q = "\<lambda>img. status img \<noteq> Generating"
  let ?ts = "task_items (t_id task) gs"
  have "task_items (t_id task) (fst (assign_groups task gs arts))
      = filter ?Q (filter ?P (fst (assign_images task (gallery_items gs) arts)))"
    unfolding task_items_def using assign_groups_flat[of task gs arts]
    by (simp add: conj_commute)
  also have "\<dots> = filter ?Q (map (\<lambda>(a, img). complete_image task a img) (zip (rev arts) ?ts)
                    @ drop (length arts) ?ts)"
    using assign_images_task[OF assms(1), of task "gallery_items gs"]
    by (simp add: task_items_def)
  finally have step: "task_items (t_id task) (fst (assign_groups task gs arts))
      = filter ?Q (map (\<lambda>(a, img). complete_image task a img) (zip (rev arts) ?ts))
        @ filter ?Q (drop (length arts) ?ts)"
    by simp
  have gone: "filter ?Q (drop (length arts) ?ts) = []"
    using assms(2) by (auto simp: filter_empty_conv dest: in_set_dropD)
  have kept: "filter ?Q (map (\<lambda>(a, img). complete_image task a img) (zip (rev arts) ?ts))
           = map (\<lambda>(a, img). complete_image task a img) (zip (rev arts) ?ts)"
    by (rule filter_True) (auto simp: complete_image_def)
  show ?thesis using step gone kept by simp
qed

lemma settle_success_items:
  assumes "\<forall>a \<in> set arts. truthy a"
    and "\<forall>img \<in> set (task_items (t_id task) (imageGroups st)). status img = Generating"
  shows "task_items (t_id task) (imageGroups (processQueue_settle task (Inr arts) st))
       = map (\<lambda>(a, img). (complete_image task a img)\<lparr>progress := Some 100\<rparr>)
           (zip (rev arts) (task_items (t_id task) (imageGroups st)))"
  using task_items_assign_groups[OF assms]
  by (simp add: processQueue_settle_def stopProgress_def task_items_update Let_def
      case_prod_unfold)

lemma task_items_subset:
  "img \<in> set (gallery_items gs) \<Longrightarrow> taskId img = Some tid \<Longrightarrow> img \<in> set (task_items tid gs)"
  by (simp add: task_items_def)

lemma run_success_items:
  assumes "\<not> isProcessing st" and "taskQueue st = task # rest"
    and "snd (task_call be task) = Inr arts"
  shows "\<exists>ts. map item_id ts = map item_id (task_items (t_id task) (imageGroups st))
            \<and> task_items (t_id task) (imageGroups (processQueue_run be nticks st))
                = map (\<lambda>(a, img). (complete_image task a img)\<lparr>progress := Some 100\<rparr>)
                    (zip (rev arts) ts)"
proof -
  let ?st1 = "startProgress (t_id task) (st\<lparr>isProcessing := True, app_error := None\<rparr>)"
  let ?stn = "(progress_tick (t_id task) ^^ nticks) ?st1"
  have fl: "in_flight (t_id task) st ?stn"
    by (rule in_flight_ticks) (rule in_flight_start)
  have tr: "\<forall>a \<in> set arts. truthy a"
    using generateStyledImages_artifacts[of be _ _ _ _ _ arts] assms(3)
    by (simp add: task_call_def)
  have gen: "\<forall>img \<in> set (task_items (t_id task) (imageGroups ?stn)). status img = Generating"
    using fl by (simp add: in_flight_def)
  have ids: "map item_id (task_items (t_id task) (imageGroups ?stn))
           = map item_id (task_items (t_id task) (imageGroups st))"
    using fl by (simp add: in_flight_def)
  have "task_items (t_id task) (imageGroups (processQueue_run be nticks st))
      = map (\<lambda>(a, img). (complete_image task a img)\<lparr>progress := Some 100\<rparr>)
          (zip (rev arts) (task_items (t_id task) (imageGroups ?stn)))"
    using settle_success_items[OF tr gen]
    by (simp add: processQueue_run_unfold[OF assms(1,2)] assms(3))
  with ids show ?thesis by blast
qed

lemma findIndex_less: "findIndex p xs = Some k \<Longrightarrow> k < length xs"
  by (induction xs arbitrary: k) (auto split: if_splits)

lemma task_items_append: "task_items tid (xs @ ys) = task_items tid xs @ task_items tid ys"
  by (simp add: task_items_def gallery_items_def)

lemma task_items_Cons:
  "task_items tid (g # gs) = filter (\<lambda>img. taskId img = Some tid) (images g) @ task_items tid gs"
  by (simp add: task_items_def)

lemma task_items_unshift_today:
  assumes "task_items tid prev = []"
  shows "task_items tid (unshift_today dateString new prev)
       = filter (\<lambda>img. taskId img = Some tid) new"
proof (cases "findIndex (\<lambda>h. date h = dateString) prev")
  case None
  with assms show ?thesis
    by (simp add: unshift_today_def task_items_Cons)
next
  case (Some k)
  then have k: "k < length prev" by (rule findIndex_less)
  let ?g = "(prev ! k)\<lparr>images := new @ images (prev ! k)\<rparr>"
  have split: "prev = take k prev @ (prev ! k) # drop (Suc k) prev"
    using k by (rule id_take_nth_drop)
  from split have "task_items tid prev = task_items tid (take k prev @ (prev ! k) # drop (Suc k) prev)"
    by (rule arg_cong)
  with assms have "task_items tid (take k prev @ (prev ! k) # drop (Suc k) prev) = []"
    by metis
  then have parts: "task_items tid (take k prev) = []"
    "filter (\<lambda>img. taskId img = Some tid) (images (prev ! k)) = []"
    "task_items tid (drop (Suc k) prev) = []"
    by (simp_all add: task_items_append task_items_Cons)
  have "prev[k := ?g] = take k prev @ ?g # drop (Suc k) prev"
    using k by (rule upd_conv_take_nth_drop)
  then have "task_items tid (prev[k := ?g]) = filter (\<lambda>img. taskId img = Some tid) new"
    using parts by (simp add: task_items_append task_items_Cons)
  with Some show ?thesis
    by (simp add: unshift_today_def)
qed

lemma enqueueTask_placeholders:
  assumes "task_items tid (imageGroups st) = []"
  shows "task_items tid (imageGroups (enqueueTask tid dateString details st))
           = placeholderImages tid (details\<lparr>t_id := tid\<rparr>)"
    and "length (task_items tid (imageGroups (enqueueTask tid dateString details st)))
           = t_numImages details"
    and "\<forall>img \<in> set (task_items tid (imageGroups (enqueueTask tid dateString details st))).
           status img = Queued"
proof -
  have all: "filter (\<lambda>img. taskId img = Some tid) (placeholderImages tid (details\<lparr>t_id := tid\<rparr>))
           = placeholderImages tid (details\<lparr>t_id := tid\<rparr>)"
    by (rule filter_True) (auto simp: placeholderImages_def)
  show eq: "task_items tid (imageGroups (enqueueTask tid dateString details st))
           = placeholderImages tid (details\<lparr>t_id := tid\<rparr>)"
    using task_items_unshift_today[OF assms] all
    by (simp add: enqueueTask_def Let_def)
  show "length (task_items tid (imageGroups (enqueueTask tid dateString details st)))
           = t_numImages details"
    by (simp add: eq placeholderImages_def)
  show "\<forall>img \<in> set (task_items tid (imageGroups (enqueueTask tid dateString details st))).
           status img = Queued"
    by (auto simp: eq placeholderImages_def)
qed

subsection \<open>The example task\<close>

lemma cat_queued_simps:
  "isProcessing cat_queued = False"
  "taskQueue cat_queued = [cat_task\<lparr>t_id := ''t1''\<rparr>]"
  by (simp_all add: cat_queued_def enqueueTask_def empty_state_def Let_def)

lemma cat_placeholders: "placeholderImages ''t1'' (cat_task\<lparr>t_id := ''t1''\<rparr>) =
  [\<lparr> item_id = ''t1-0'', name = placeholder_name, status = Queued, url = None, progress = None,
      taskId = Some ''t1'', styleDescription = [], contentPrompt = ''a cat'', error = None \<rparr>,
   \<lparr> item_id = ''t1-1'', name = placeholder_name, status = Queued, url = None, progress = None,
      taskId = Some ''t1'', styleDescription = [], contentPrompt = ''a cat'', error = None \<rparr>]"
  by code_simp

lemma cat_queued_groups:
  "imageGroups cat_queued = [\<lparr> date = ''d1'', images = placeholderImages ''t1'' (cat_task\<lparr>t_id := ''t1''\<rparr>) \<rparr>]"
  by (simp add: cat_queued_def enqueueTask_def empty_state_def Let_def unshift_today_def)

lemma cat_queued_items:
  "task_items ''t1'' (imageGroups cat_queued) = placeholderImages ''t1'' (cat_task\<lparr>t_id := ''t1''\<rparr>)"
  by (simp add: cat_queued_groups task_items_def gallery_items_def cat_placeholders)

lemma cat_call:
  "snd (task_call backend_two (cat_task\<lparr>t_id := ''t1''\<rparr>))
     = Inr [''data:image/jpeg;base64,AAAA'', ''data:image/jpeg;base64,BBBB'']"
  by (simp add: task_call_def generateStyledImages_def backend_two_def cat_task_def Let_def)

lemma cat_run_items:
  "map (\<lambda>img. (item_id img, url img, status img))
       (task_items ''t1'' (imageGroups (processQueue_run backend_two 0 cat_queued)))
   = [(''t1-0'', Some ''data:image/jpeg;base64,BBBB'', Completed),
      (''t1-1'', Some ''data:image/jpeg;base64,AAAA'', Completed)]"
  by code_simp

subsection \<open>Success\<close>

text \<open>
  C1. A task at the head of the queue has \<open>N = numImages\<close> placeholders in the gallery and
  its gateway call succeeds with \<open>K \<le> N\<close> artifacts (the gateway never succeeds with
  none, so \<open>0 < K\<close>). After the run, exactly \<open>K\<close> images of the task remain, they are the
  first \<open>K\<close> placeholders, each completed with a url that is not empty; the other \<open>N - K\<close> are gone from
  their groups; and no image of the task is still generating.
\<close>

theorem partial_success_reconciled:
  assumes "\<not> isProcessing st" and "taskQueue st = task # rest"
    and "length (task_items (t_id task) (imageGroups st)) = t_numImages task"
    and "snd (task_call be task) = Inr arts"
    and "length arts \<le> t_numImages task"
  shows "length (task_items (t_id task) (imageGroups (processQueue_run be nticks st))) = length arts
       \<and> 0 < length arts
       \<and> (\<forall>img \<in> set (task_items (t_id task) (imageGroups (processQueue_run be nticks st))).
             status img = Completed \<and> (\<exists>u. url img = Some u \<and> truthy u))
       \<and> map item_id (task_items (t_id task) (imageGroups (processQueue_run be nticks st)))
           = take (length arts) (map item_id (task_items (t_id task) (imageGroups st)))
       \<and> (\<forall>img \<in> set (gallery_items (imageGroups (processQueue_run be nticks st))).
             taskId img = Some (t_id task) \<longrightarrow> status img \<noteq> Generating)"
proof -
  let ?after = "task_items (t_id task) (imageGroups (processQueue_run be nticks st))"
  let ?before = "task_items (t_id task) (imageGroups st)"
  obtain ts where ids: "map item_id ts = map item_id ?before"
    and after: "?after = map (\<lambda>(a, img). (complete_image task a img)\<lparr>progress := Some 100\<rparr>)
                          (zip (rev arts) ts)"
    using run_success_items[OF assms(1,2,4)] by blast
  have len_ts: "length ts = t_numImages task"
    using ids assms(3) by (metis length_map)
  have len: "length ?after = length arts"
    using after len_ts assms(5) by simp
  have pos: "0 < length arts"
    using generateStyledImages_artifacts[of be _ _ _ _ _ arts] assms(4)
    by (simp add: task_call_def)
  have tr: "\<forall>a \<in> set arts. truthy a"
    using generateStyledImages_artifacts[of be _ _ _ _ _ arts] assms(4)
    by (simp add: task_call_def)
  have compl: "\<forall>img \<in> set ?after. status img = Completed \<and> (\<exists>u. url img = Some u \<and> truthy u)"
    unfolding after using tr by (auto simp: complete_image_def dest!: set_zip_leftD)
  have "map item_id ?after = map item_id (map snd (zip (rev arts) ts))"
    unfolding after by (simp add: case_prod_unfold complete_image_def)
  then have "map item_id ?after = map item_id (take (length arts) ts)"
    using len_ts assms(5) by (simp add: map_snd_zip_take min_absorb1)
  then have kept: "map item_id ?after = take (length arts) (map item_id ?before)"
    using ids by (metis take_map)
  have nogen: "\<forall>img \<in> set (gallery_items (imageGroups (processQueue_run be nticks st))).
             taskId img = Some (t_id task) \<longrightarrow> status img \<noteq> Generating"
    using compl task_items_subset by fastforce
  show ?thesis using len pos compl kept nogen by blast
qed

theorem partial_success_reconciled_witness:
  "length (task_items ''t1'' (imageGroups (processQueue_run backend_two 3 cat_queued))) = 2
   \<and> map item_id (task_items ''t1'' (imageGroups (processQueue_run backend_two 3 cat_queued)))
       = [''t1-0'', ''t1-1'']"
proof -
  have h1: "\<not> isProcessing cat_queued" by (simp add: cat_queued_simps)
  have h2: "taskQueue cat_queued = cat_task\<lparr>t_id := ''t1''\<rparr> # []" by (simp add: cat_queued_simps)
  have h3: "length (task_items (t_id (cat_task\<lparr>t_id := ''t1''\<rparr>)) (imageGroups cat_queued))
              = t_numImages (cat_task\<lparr>t_id := ''t1''\<rparr>)"
    by (simp add: cat_task_def) (simp add: cat_queued_items cat_placeholders)
  have h5: "length [''data:image/jpeg;base64,AAAA'', ''data:image/jpeg;base64,BBBB'']
              \<le> t_numImages (cat_task\<lparr>t_id := ''t1''\<rparr>)"
    by (simp add: cat_task_def)
  show ?thesis
    using partial_success_reconciled[OF h1 h2 h3 cat_call h5, of 3]
    by (simp add: cat_queued_items cat_placeholders)
qed

text \<open>
  C7, as the program has it. The results are consumed from the tail while the
  placeholders are visited from the head: the \<open>i\<close>-th placeholder of the task, in gallery
  order, receives artifact \<open>K - 1 - i\<close> of the \<open>K\<close> returned.
\<close>

theorem artifacts_assigned_from_tail:
  assumes "\<not> isProcessing st" and "taskQueue st = task # rest"
    and "length (task_items (t_id task) (imageGroups st)) = t_numImages task"
    and "snd (task_call be task) = Inr arts"
    and "length arts \<le> t_numImages task"
    and "i < length arts"
  shows "url (task_items (t_id task) (imageGroups (processQueue_run be nticks st)) ! i)
           = Some (arts ! (length arts - 1 - i))
       \<and> item_id (task_items (t_id task) (imageGroups (processQueue_run be nticks st)) ! i)
           = item_id (task_items (t_id task) (imageGroups st) ! i)"
proof -
  let ?after = "task_items (t_id task) (imageGroups (processQueue_run be nticks st))"
  let ?before = "task_items (t_id task) (imageGroups st)"
  obtain ts where ids: "map item_id ts = map item_id ?before"
    and after: "?after = map (\<lambda>(a, img). (complete_image task a img)\<lparr>progress := Some 100\<rparr>)
                          (zip (rev arts) ts)"
    using run_success_items[OF assms(1,2,4)] by blast
  have len_ts: "length ts = t_numImages task"
    using ids assms(3) by (metis length_map)
  have i_ts: "i < length ts" using assms(5,6) len_ts by simp
  have "item_id (ts ! i) = item_id (?before ! i)"
    using ids i_ts by (metis nth_map length_map)
  moreover have "?after ! i = (complete_image task (rev arts ! i) (ts ! i))\<lparr>progress := Some 100\<rparr>"
    unfolding after using i_ts assms(6) by simp
  moreover have "rev arts ! i = arts ! (length arts - 1 - i)"
    using assms(6) by (simp add: rev_nth)
  ultimately show ?thesis by (simp add: complete_image_def)
qed

theorem artifacts_assigned_from_tail_witness:
  "url (task_items ''t1'' (imageGroups (processQueue_run backend_two 3 cat_queued)) ! 0)
     = Some ''data:image/jpeg;base64,BBBB''
   \<and> item_id (task_items ''t1'' (imageGroups (processQueue_run backend_two 3 cat_queued)) ! 0)
     = ''t1-0''"
proof -
  have h1: "\<not> isProcessing cat_queued" by (simp add: cat_queued_simps)
  have h2: "taskQueue cat_queued = cat_task\<lparr>t_id := ''t1''\<rparr> # []" by (simp add: cat_queued_simps)
  have h3: "length (task_items (t_id (cat_task\<lparr>t_id := ''t1''\<rparr>)) (imageGroups cat_queued))
              = t_numImages (cat_task\<lparr>t_id := ''t1''\<rparr>)"
    by (simp add: cat_task_def) (simp add: cat_queued_items cat_placeholders)
  have h5: "length [''data:image/jpeg;base64,AAAA'', ''data:image/jpeg;base64,BBBB'']
              \<le> t_numImages (cat_task\<lparr>t_id := ''t1''\<rparr>)"
    by (simp add: cat_task_def)
  have h6: "0 < length [''data:image/jpeg;base64,AAAA'', ''data:image/jpeg;base64,BBBB'']"
    by simp
  show ?thesis
    using artifacts_assigned_from_tail[OF h1 h2 h3 cat_call h5 h6, of 3]
    by (simp add: cat_queued_items cat_placeholders)
qed

text \<open>
  C7 as stated fails: with two artifacts returned in the order \<open>AAAA\<close>, \<open>BBBB\<close>, the first
  placeholder \<open>t1-0\<close> receives the second artifact.
\<close>

theorem index_mapping_counterexample:
  "snd (task_call backend_two (cat_task\<lparr>t_id := ''t1''\<rparr>))
     = Inr [''data:image/jpeg;base64,AAAA'', ''data:image/jpeg;base64,BBBB'']
   \<and> item_id (task_items ''t1'' (imageGroups cat_queued) ! 0) = ''t1-0''
   \<and> item_id (task_items ''t1'' (imageGroups (processQueue_run backend_two 0 cat_queued)) ! 0) = ''t1-0''
   \<and> url (task_items ''t1'' (imageGroups (processQueue_run backend_two 0 cat_queued)) ! 0)
       = Some ''data:image/jpeg;base64,BBBB''
   \<and> url (task_items ''t1'' (imageGroups (processQueue_run backend_two 0 cat_queued)) ! 0)
       \<noteq> Some ''data:image/jpeg;base64,AAAA''"
  by code_simp

subsection \<open>Failure\<close>

lemma settle_failure_items:
  "task_items (t_id task) (imageGroups (processQueue_settle task (Inl err) st))
     = map (\<lambda>img. img\<lparr>status := Failed, error := Some (caught_message err), progress := Some 100\<rparr>)
         (task_items (t_id task) (imageGroups st))"
  by (simp add: processQueue_settle_def stopProgress_def task_items_update Let_def comp_def)

lemma settle_failure_structure:
  "map (\<lambda>g. (date g, map item_id (images g))) (imageGroups (processQueue_settle task (Inl err) st))
     = map (\<lambda>g. (date g, map item_id (images g))) (imageGroups st)"
  by (simp add: processQueue_settle_def stopProgress_def structure_update Let_def)

text \<open>
  C2. The gateway call of the head task fails. After the run every group holds the same
  images as before (none is removed), and every image of the task is failed and carries
  the one message derived from the failure. The gateway never succeeds with zero
  artifacts, so that case is a failure too.
\<close>

theorem failure_marks_all_failed:
  assumes "\<not> isProcessing st" and "taskQueue st = task # rest"
    and "snd (task_call be task) = Inl err"
  shows "map (\<lambda>g. (date g, map item_id (images g))) (imageGroups (processQueue_run be nticks st))
           = map (\<lambda>g. (date g, map item_id (images g))) (imageGroups st)
       \<and> map item_id (task_items (t_id task) (imageGroups (processQueue_run be nticks st)))
           = map item_id (task_items (t_id task) (imageGroups st))
       \<and> (\<forall>img \<in> set (task_items (t_id task) (imageGroups (processQueue_run be nticks st))).
             status img = Failed \<and> error img = Some (caught_message err))
       \<and> snd (task_call be' task) \<noteq> Inr []"
proof -
  let ?st1 = "startProgress (t_id task) (st\<lparr>isProcessing := True, app_error := None\<rparr>)"
  let ?stn = "(progress_tick (t_id task) ^^ nticks) ?st1"
  have fl: "in_flight (t_id task) st ?stn"
    by (rule in_flight_ticks) (rule in_flight_start)
  have run: "processQueue_run be nticks st = processQueue_settle task (Inl err) ?stn"
    by (simp add: processQueue_run_unfold[OF assms(1,2)] assms(3))
  have a: "map (\<lambda>g. (date g, map item_id (images g))) (imageGroups (processQueue_run be nticks st))
           = map (\<lambda>g. (date g, map item_id (images g))) (imageGroups st)"
    using fl by (simp add: run settle_failure_structure in_flight_def)
  have b: "map item_id (task_items (t_id task) (imageGroups (processQueue_run be nticks st)))
           = map item_id (task_items (t_id task) (imageGroups st))"
    using fl by (simp add: run settle_failure_items in_flight_def comp_def)
  have c: "\<forall>img \<in> set (task_items (t_id task) (imageGroups (processQueue_run be nticks st))).
             status img = Failed \<and> error img = Some (caught_message err)"
    by (auto simp: run settle_failure_items)
  have d: "snd (task_call be' task) \<noteq> Inr []"
    using generateStyledImages_artifacts[of be' _ _ _ _ _ "[]"]
    by (auto simp: task_call_def)
  show ?thesis using a b c d by blast
qed

lemma cat_call_down:
  "snd (task_call backend_down (cat_task\<lparr>t_id := ''t1''\<rparr>)) = Inl (new_Error ''503'')"
  by (simp add: task_call_def generateStyledImages_def backend_down_def cat_task_def Let_def)

theorem failure_marks_all_failed_witness:
  "map item_id (task_items ''t1'' (imageGroups (processQueue_run backend_down 3 cat_queued)))
     = [''t1-0'', ''t1-1'']
   \<and> map (\<lambda>g. (date g, map item_id (images g))) (imageGroups (processQueue_run backend_down 3 cat_queued))
     = [(''d1'', [''t1-0'', ''t1-1''])]"
proof -
  have h1: "\<not> isProcessing cat_queued" by (simp add: cat_queued_simps)
  have h2: "taskQueue cat_queued = cat_task\<lparr>t_id := ''t1''\<rparr> # []" by (simp add: cat_queued_simps)
  have items: "map item_id (task_items ''t1'' (imageGroups cat_queued)) = [''t1-0'', ''t1-1'']"
    by (simp add: cat_queued_items cat_placeholders)
  have groups: "map (\<lambda>g. (date g, map item_id (images g))) (imageGroups cat_queued)
              = [(''d1'', [''t1-0'', ''t1-1''])]"
    by (simp add: cat_queued_groups cat_placeholders)
  show ?thesis
    using failure_marks_all_failed[OF h1 h2 cat_call_down, of 3] items groups
    by simp
qed

section \<open>The progress estimator\<close>

lemma tick_image_progress:
  "current_progress img \<le> current_progress (tick_image tid img)"
  by (auto simp: tick_image_def current_progress_def Let_def min_def max_def)

lemma tick_image_bounded:
  assumes "0 \<le> current_progress img" "current_progress img \<le> 95" "progress img \<noteq> None"
  shows "0 \<le> current_progress (tick_image tid img) \<and> current_progress (tick_image tid img) \<le> 95
         \<and> progress (tick_image tid img) \<noteq> None"
  using assms by (auto simp: tick_image_def current_progress_def Let_def min_def max_def)

lemma ticks_bounded:
  "\<forall>img \<in> set (task_items tid (imageGroups ((progress_tick tid ^^ n) (startProgress tid st)))).
     status img = Generating \<and> 0 \<le> current_progress img \<and> current_progress img \<le> 95
     \<and> progress img \<noteq> None"
proof (induction n)
  case 0
  show ?case
    by (simp add: startProgress_def task_items_update current_progress_def)
next
  case (Suc n)
  let ?s = "(progress_tick tid ^^ n) (startProgress tid st)"
  have "task_items tid (imageGroups (progress_tick tid ?s))
        = map (tick_image tid) (task_items tid (imageGroups ?s))
      \<or> progress_tick tid ?s = ?s"
    by (simp add: progress_tick_def task_items_map_images tick_image_keeps)
  then show ?case
    using Suc.IH tick_image_bounded[of _ tid] by (auto simp: tick_image_keeps)
qed

lemma stopProgress_progress:
  "\<forall>img \<in> set (task_items tid (imageGroups (stopProgress tid st))). progress img = Some 100"
  by (simp add: stopProgress_def task_items_update)

lemma progress_decay_progress:
  "\<forall>img \<in> set (task_items tid (imageGroups (progress_decay tid st))). progress img = None"
  by (simp add: progress_decay_def task_items_update)

text \<open>
  C3, as the program has it. A tick never lowers progress; on a generating image of the
  task below 95 it sets progress to \<open>min (current + max 1 ((95 - current) / 15)) 95\<close>; from
  dispatch on, under any number of ticks, the task's images stay generating with
  progress between 0 and 95, 95 included; \<open>stopProgress\<close> sets it to 100 and the decay
  timeout clears it.
\<close>

theorem progress_estimator:
  "current_progress img \<le> current_progress (tick_image tid img)
   \<and> (taskId img = Some tid \<and> status img = Generating \<and> current_progress img < 95 \<longrightarrow>
        progress (tick_image tid img)
          = Some (min (current_progress img + max 1 ((95 - current_progress img) / 15)) 95))
   \<and> (\<forall>img' \<in> set (task_items tid (imageGroups ((progress_tick tid ^^ n) (startProgress tid st)))).
        status img' = Generating \<and> 0 \<le> current_progress img' \<and> current_progress img' \<le> 95
        \<and> progress img' \<noteq> None)
   \<and> (\<forall>img' \<in> set (task_items tid (imageGroups (stopProgress tid st))). progress img' = Some 100)
   \<and> (\<forall>img' \<in> set (task_items tid (imageGroups (progress_decay tid st))). progress img' = None)"
  using tick_image_progress[of img tid] ticks_bounded[of tid n st]
    stopProgress_progress[of tid st] progress_decay_progress[of tid st]
  by (simp add: tick_image_def Let_def)

lemma cat_dispatched_eq: "cat_dispatched = startProgress ''t1'' (cat_queued\<lparr>isProcessing := True, app_error := None\<rparr>)"
  by (simp add: cat_dispatched_def processQueue_begin_def cat_queued_simps)

lemma tick_generating:
  "tick_image tid (img\<lparr>status := Generating, progress := Some p, taskId := Some tid\<rparr>)
     = img\<lparr>status := Generating,
           progress := Some (if p < 95 then min (p + max 1 ((95 - p) / 15)) 95 else p),
           taskId := Some tid\<rparr>"
  by (simp add: tick_image_def current_progress_def Let_def)

lemma forty_two_ticks:
  assumes "status img = Generating" "taskId img = Some tid" "progress img = Some 0"
  shows "(tick_image tid ^^ 42) img = img\<lparr>progress := Some 95\<rparr>"
proof -
  have "(tick_image tid ^^ 42) (img\<lparr>status := Generating, progress := Some 0, taskId := Some tid\<rparr>)
      = img\<lparr>status := Generating, progress := Some 95, taskId := Some tid\<rparr>"
    by (simp add: eval_nat_numeral funpow_swap1 tick_generating)
  moreover have "img\<lparr>status := Generating, progress := Some 0, taskId := Some tid\<rparr> = img"
    using assms by simp
  moreover have "img\<lparr>status := Generating, progress := Some 95, taskId := Some tid\<rparr>
               = img\<lparr>progress := Some 95\<rparr>"
    using assms by simp
  ultimately show ?thesis by simp
qed

lemma progress_tick_registered:
  "tid \<in> progressIntervals st \<Longrightarrow>
     tid \<in> progressIntervals ((progress_tick tid ^^ n) st)
     \<and> task_items tid (imageGroups ((progress_tick tid ^^ n) st))
         = map (tick_image tid ^^ n) (task_items tid (imageGroups st))"
proof (induction n)
  case 0
  then show ?case by simp
next
  case (Suc n)
  then show ?case
    by (simp add: progress_tick_def task_items_map_images tick_image_keeps)
qed

lemma cat_dispatched_items:
  "task_items ''t1'' (imageGroups cat_dispatched)
     = map (\<lambda>img. img\<lparr>status := Generating, progress := Some 0\<rparr>)
         (placeholderImages ''t1'' (cat_task\<lparr>t_id := ''t1''\<rparr>))"
  by (simp add: cat_dispatched_eq startProgress_def task_items_update cat_queued_items)

text \<open>
  C3 as stated fails: 42 ticks after dispatch the first placeholder is still generating
  and its progress is exactly 95.
\<close>

theorem progress_reaches_95_counterexample:
  "status (task_items ''t1'' (imageGroups ((progress_tick ''t1'' ^^ 42) cat_dispatched)) ! 0) = Generating
   \<and> progress (task_items ''t1'' (imageGroups ((progress_tick ''t1'' ^^ 42) cat_dispatched)) ! 0) = Some 95"
proof -
  have reg: "''t1'' \<in> progressIntervals cat_dispatched"
    by (simp add: cat_dispatched_eq startProgress_def)
  have "task_items ''t1'' (imageGroups ((progress_tick ''t1'' ^^ 42) cat_dispatched))
      = map (tick_image ''t1'' ^^ 42) (task_items ''t1'' (imageGroups cat_dispatched))"
    using progress_tick_registered[OF reg, of 42] by simp
  then show ?thesis
    by (simp add: cat_dispatched_items cat_placeholders forty_two_ticks)
qed

theorem progress_estimator_witness:
  "progress (tick_image ''t1'' (task_items ''t1'' (imageGroups cat_dispatched) ! 0)) = Some (19 / 3)
   \<and> progress (task_items ''t1'' (imageGroups (stopProgress ''t1'' cat_dispatched)) ! 0) = Some 100
   \<and> progress (task_items ''t1'' (imageGroups (progress_decay ''t1'' cat_dispatched)) ! 0) = None"
proof -
  let ?img = "task_items ''t1'' (imageGroups cat_dispatched) ! 0"
  have img: "taskId ?img = Some ''t1''" "status ?img = Generating" "current_progress ?img = 0"
    by (simp_all add: cat_dispatched_items cat_placeholders current_progress_def)
  have stop: "task_items ''t1'' (imageGroups (stopProgress ''t1'' cat_dispatched)) ! 0
              \<in> set (task_items ''t1'' (imageGroups (stopProgress ''t1'' cat_dispatched)))"
    by (simp add: stopProgress_def task_items_update cat_dispatched_items cat_placeholders)
  have decay: "task_items ''t1'' (imageGroups (progress_decay ''t1'' cat_dispatched)) ! 0
              \<in> set (task_items ''t1'' (imageGroups (progress_decay ''t1'' cat_dispatched)))"
    by (simp add: progress_decay_def task_items_update cat_dispatched_items cat_placeholders)
  show ?thesis
    using progress_estimator[of ?img "''t1''" 0 cat_dispatched] img stop decay
    by simp
qed

section \<open>The collections\<close>

lemma take_out_image_miss:
  "\<not> (int iIdx \<le> imageIdx \<and> imageIdx < int iIdx + int (length xs)) \<Longrightarrow>
     take_out_image imageIdx iIdx xs moved = (xs, moved)"
  by (induction xs arbitrary: iIdx) auto

lemma take_out_group_miss:
  "\<not> (int gIdx \<le> groupIdx \<and> groupIdx < int gIdx + int (length gs)
       \<and> 0 \<le> imageIdx \<and> imageIdx < int (length (images (gs ! nat (groupIdx - int gIdx))))) \<Longrightarrow>
     take_out_group groupIdx imageIdx gIdx gs moved = (gs, moved)"
proof (induction gs arbitrary: gIdx)
  case Nil
  then show ?case by simp
next
  case (Cons g gs)
  show ?case
  proof (cases "int gIdx = groupIdx")
    case True
    with Cons.prems have miss: "\<not> (0 \<le> imageIdx \<and> imageIdx < int (length (images g)))"
      by simp
    have rest: "take_out_group groupIdx imageIdx (Suc gIdx) gs moved = (gs, moved)"
      by (rule Cons.IH) (use True in simp)
    from True miss rest show ?thesis
      by (simp add: take_out_image_miss)
  next
    case False
    have "take_out_group groupIdx imageIdx (Suc gIdx) gs moved = (gs, moved)"
    proof (rule Cons.IH)
      show "\<not> (int (Suc gIdx) \<le> groupIdx \<and> groupIdx < int (Suc gIdx) + int (length gs)
               \<and> 0 \<le> imageIdx
               \<and> imageIdx < int (length (images (gs ! nat (groupIdx - int (Suc gIdx))))))"
      proof
        assume a: "int (Suc gIdx) \<le> groupIdx \<and> groupIdx < int (Suc gIdx) + int (length gs)
               \<and> 0 \<le> imageIdx
               \<and> imageIdx < int (length (images (gs ! nat (groupIdx - int (Suc gIdx)))))"
        then have "nat (groupIdx - int gIdx) = Suc (nat (groupIdx - int (Suc gIdx)))"
          by linarith
        with a Cons.prems show False by simp
      qed
    qed
    with False show ?thesis by simp
  qed
qed

lemma gallery_items_prune: "gallery_items (prune gs) = gallery_items gs"
  by (induction gs) (simp_all add: prune_def)

text \<open>
  C10. When the indices do not name an image of the gallery, \<open>handleDeleteImage\<close> leaves
  the trash as it is and removes no image from the gallery; the gallery only loses
  groups that were already empty.
\<close>

theorem delete_out_of_range:
  assumes "\<not> valid_index groupIdx imageIdx (imageGroups st)"
  shows "trash (handleDeleteImage trashDate groupIdx imageIdx st) = trash st
       \<and> gallery_items (imageGroups (handleDeleteImage trashDate groupIdx imageIdx st))
           = gallery_items (imageGroups st)
       \<and> imageGroups (handleDeleteImage trashDate groupIdx imageIdx st) = prune (imageGroups st)"
proof -
  have "take_out_group groupIdx imageIdx 0 (imageGroups st) None = (imageGroups st, None)"
    by (rule take_out_group_miss) (use assms in \<open>simp add: valid_index_def\<close>)
  then show ?thesis
    by (simp add: handleDeleteImage_def gallery_items_prune)
qed

theorem delete_out_of_range_witness:
  "\<not> valid_index 0 1 (imageGroups gallery_one)
   \<and> trash (handleDeleteImage ''2025/1/1'' 0 1 gallery_one) = []
   \<and> imageGroups (handleDeleteImage ''2025/1/1'' 0 1 gallery_one) = imageGroups gallery_one"
proof -
  have h: "\<not> valid_index 0 1 (imageGroups gallery_one)"
    by (simp add: valid_index_def gallery_one_def)
  show ?thesis
    using h delete_out_of_range[OF h, of "''2025/1/1''"]
    by (simp add: gallery_one_def prune_def)
qed

lemma prune_no_empty: "\<forall>g \<in> set (prune gs). images g \<noteq> []"
  by (simp add: prune_def)

lemma delete_prunes_gallery:
  "\<forall>g \<in> set (imageGroups (handleDeleteImage trashDate groupIdx imageIdx st)). images g \<noteq> []"
  by (auto simp: handleDeleteImage_def prune_def Let_def split: prod.splits option.splits)

lemma delete_keeps_trash_nonempty:
  assumes "\<forall>g \<in> set (trash st). images g \<noteq> []"
  shows "\<forall>g \<in> set (trash (handleDeleteImage trashDate groupIdx imageIdx st)). images g \<noteq> []"
  using assms
  by (auto simp: handleDeleteImage_def Let_def split: prod.splits option.splits)

lemma restore_prunes_trash:
  "\<forall>g \<in> set (trash (handleRestoreImage dateString groupIdx imageIdx st)). images g \<noteq> []"
  by (auto simp: handleRestoreImage_def prune_def Let_def split: prod.splits option.splits)

lemma permanent_delete_prunes_trash:
  "\<forall>g \<in> set (trash (handlePermanentlyDeleteImage groupIdx imageIdx st)). images g \<noteq> []"
  by (simp add: handlePermanentlyDeleteImage_def prune_def)

text \<open>
  C8. The success branch of \<open>processQueue\<close> drops generating images without dropping the
  groups it empties. A page reload while task \<open>t1\<close> is outstanding leaves its two
  generating placeholders in the stored group \<open>d1\<close>; the next day a task \<open>t2\<close> succeeds,
  and its reconciliation leaves \<open>d1\<close> in the gallery with no image.
\<close>

theorem partial_success_leaves_empty_group:
  "map date (imageGroups stale_run) = [''d2'', ''d1'']
   \<and> length (images (imageGroups stale_run ! 0)) = 2
   \<and> images (imageGroups stale_run ! 1) = []"
  by code_simp

section \<open>The batch runner: translation\<close>

lemma js_or_same: "js_or (Some p) p = p"
  by simp

lemma nth_map_enumerate:
  "i < length xs \<Longrightarrow> map (\<lambda>(k, x). f k x) (enumerate 0 xs) ! i = f i (xs ! i)"
  by (simp add: nth_enumerate_eq)

lemma map_enumerate_id:
  "(\<And>k x. k < length xs \<Longrightarrow> f k (xs ! k) = xs ! k) \<Longrightarrow>
     map (\<lambda>(k, x). f k x) (enumerate 0 xs) = xs"
  by (rule nth_equalityI) (simp_all add: nth_enumerate_eq)

lemma translate_settled:
  assumes "prompts \<noteq> []" "model (translate_prompt (js_join separator prompts)) = Inr answer"
  shows "translatePromptsToEnglish model prompts
       = Inr (if length (js_split separator (js_trim answer)) \<noteq> length prompts then prompts
              else js_split separator (js_trim answer))"
  using assms by (simp add: translatePromptsToEnglish_def Let_def)

text \<open>
  C5, as the program has it. With tasks present and no batch running, and a backend
  that answers: when the answer splits into a number of pieces other than \<open>N\<close>, the task
  list is left as it is; when it splits into \<open>N\<close> pieces, prompt \<open>i\<close> becomes piece \<open>i\<close>
  unless that piece is empty, in which case prompt \<open>i\<close> keeps its value.
\<close>

theorem translate_all_cardinality:
  assumes "tasks st \<noteq> []" and "\<not> isGenerating st"
    and "model (translate_prompt (js_join separator (map v_prompt (tasks st)))) = Inr answer"
  shows "\<exists>ts'. handleTranslateAll model st = Inr (st\<lparr>tasks := ts'\<rparr>)
           \<and> length ts' = length (tasks st)
           \<and> (length (js_split separator (js_trim answer)) \<noteq> length (tasks st) \<longrightarrow>
                 ts' = tasks st)
           \<and> (length (js_split separator (js_trim answer)) = length (tasks st) \<longrightarrow>
                 (\<forall>i < length (tasks st).
                    ts' ! i =
                      (tasks st ! i)\<lparr>v_prompt :=
                         (if js_split separator (js_trim answer) ! i = [] then v_prompt (tasks st ! i)
                          else js_split separator (js_trim answer) ! i)\<rparr>))"
proof -
  let ?orig = "map v_prompt (tasks st)"
  let ?ret = "js_split separator (js_trim answer)"
  let ?res = "if length ?ret \<noteq> length ?orig then ?orig else ?ret"
  let ?ts' = "map (\<lambda>(i, task). task\<lparr>v_prompt := js_or (nth_opt ?res i) (?orig ! i)\<rparr>)
                  (enumerate 0 (tasks st))"
  have ne: "?orig \<noteq> []" using assms(1) by simp
  have run: "handleTranslateAll model st = Inr (st\<lparr>tasks := ?ts'\<rparr>)"
    using assms(1,2) translate_settled[of "map v_prompt (tasks st)" model answer] ne assms(3)
    by (simp add: handleTranslateAll_def Let_def)
  have len: "length ?ts' = length (tasks st)" by simp
  have differ: "?ts' = tasks st" if "length ?ret \<noteq> length (tasks st)"
  proof -
    have "map (\<lambda>(i, task). task\<lparr>v_prompt := js_or (nth_opt ?orig i) (?orig ! i)\<rparr>)
              (enumerate 0 (tasks st)) = tasks st"
      by (rule map_enumerate_id) (simp add: nth_opt_def)
    with that show ?thesis by simp
  qed
  have same: "?ts' ! i =
        (tasks st ! i)\<lparr>v_prompt := (if ?ret ! i = [] then v_prompt (tasks st ! i) else ?ret ! i)\<rparr>"
    if "length ?ret = length (tasks st)" "i < length (tasks st)" for i
    using that by (simp add: nth_enumerate_eq nth_opt_def truthy_def)
  show ?thesis
    using run len differ same by blast
qed

theorem translate_all_cardinality_witness:
  "handleTranslateAll model_two_pieces two_pending
     = Inr (two_pending\<lparr>tasks := [(tasks two_pending ! 0)\<lparr>v_prompt := ''A''\<rparr>,
                                    (tasks two_pending ! 1)\<lparr>v_prompt := ''B''\<rparr>]\<rparr>)"
proof -
  have h1: "tasks two_pending \<noteq> []" by (simp add: two_pending_def)
  have h2: "\<not> isGenerating two_pending" by (simp add: two_pending_def)
  have h3: "model_two_pieces (translate_prompt (js_join separator (map v_prompt (tasks two_pending))))
              = Inr ''A|||---|||B''"
    by (simp add: model_two_pieces_def)
  have sp: "js_split separator (js_trim ''A|||---|||B'') = [''A'', ''B'']"
    by code_simp
  have n: "length (tasks two_pending) = 2" by (simp add: two_pending_def)
  obtain ts' where r: "handleTranslateAll model_two_pieces two_pending = Inr (two_pending\<lparr>tasks := ts'\<rparr>)"
    and l: "length ts' = 2"
    and s: "\<forall>i < 2. ts' ! i =
              (tasks two_pending ! i)\<lparr>v_prompt :=
                 (if [''A'', ''B''] ! i = [] then v_prompt (tasks two_pending ! i)
                  else [''A'', ''B''] ! i)\<rparr>"
    using translate_all_cardinality[of two_pending model_two_pieces "''A|||---|||B''"] h1 h2 h3
    unfolding sp n by auto
  have "ts' ! 0 = (tasks two_pending ! 0)\<lparr>v_prompt := ''A''\<rparr>" "ts' ! 1 = (tasks two_pending ! 1)\<lparr>v_prompt := ''B''\<rparr>"
    using s by simp_all
  then have "ts' = [(tasks two_pending ! 0)\<lparr>v_prompt := ''A''\<rparr>, (tasks two_pending ! 1)\<lparr>v_prompt := ''B''\<rparr>]"
    using l by (intro nth_equalityI) (auto simp: less_Suc_eq numeral_2_eq_2)
  with r show ?thesis by simp
qed

text \<open>
  C5 as stated fails: the answer splits into two pieces for two prompts, yet prompt 0
  is not replaced by piece 0 (which is empty) while prompt 1 is replaced.
\<close>

theorem translate_all_counterexample:
  "js_split separator (js_trim ''|||---|||B'') = [[], ''B'']
   \<and> map v_prompt (tasks two_pending) = [''a'', ''b'']
   \<and> handleTranslateAll model_empty_first two_pending
       = Inr (two_pending\<lparr>tasks := [tasks two_pending ! 0, (tasks two_pending ! 1)\<lparr>v_prompt := ''B''\<rparr>]\<rparr>)"
  by code_simp

section \<open>The batch runner: pause and resume\<close>

lemma loop_never_saves_cursor:
  "\<not> cap_isPaused cap \<Longrightarrow>
     generationIndexRef (generation_loop cap be paused_during i st) = 0
     \<and> \<not> isGenerating (generation_loop cap be paused_during i st)"
proof (induction cap be paused_during i st rule: generation_loop.induct)
  case (1 cap be paused_during i st)
  show ?case
  proof (cases "i < length (cap_tasks cap)")
    case False
    then show ?thesis by (simp add: generation_loop.simps[of cap be paused_during i st])
  next
    case True
    show ?thesis
    proof (cases "v_status (cap_tasks cap ! i) = VipCompleted")
      case fin: True
      from "1.IH"(1)[OF True "1.prems" refl fin] "1.prems"
      show ?thesis
        using True fin by (simp add: generation_loop.simps[of cap be paused_during i st])
    next
      case todo: False
      from "1.IH"(2)[OF True "1.prems" refl todo refl refl refl refl] "1.prems"
      show ?thesis
        using True todo by (simp add: generation_loop.simps[of cap be paused_during i st] Let_def)
    qed
  qed
qed

lemma loop_skips_completed:
  "i < length (cap_tasks cap) \<Longrightarrow> \<not> cap_isPaused cap \<Longrightarrow>
     v_status (cap_tasks cap ! i) = VipCompleted \<Longrightarrow>
     generation_loop cap be paused_during i st = generation_loop cap be paused_during (i + 1) st"
  by (subst generation_loop.simps) simp

lemma loop_honours_captured_pause:
  "i < length (cap_tasks cap) \<Longrightarrow> cap_isPaused cap \<Longrightarrow>
     generation_loop cap be paused_during i st = st\<lparr>generationIndexRef := i, isGenerating := False\<rparr>"
  by (subst generation_loop.simps) simp

lemma effect_never_saves_cursor:
  "generationIndexRef (generation_effect be paused_during st)
     = (if isGenerating st \<and> \<not> isPaused st then 0 else generationIndexRef st)"
  using loop_never_saves_cursor[of "render st" be paused_during "generationIndexRef st"
      "st\<lparr>isGenerating := True\<rparr>"]
  by (simp add: generation_effect_def processGenerationQueue_def render_def)

text \<open>
  C4. \<open>generateAll\<close> on two pending items with \<open>pause\<close> pressed while the call for item 0
  is outstanding: the loop tests the value of \<open>isPaused\<close> it captured when it started, so
  it goes on to item 1, generates it, and ends with the cursor reset to 0 although the
  component is paused.
\<close>

theorem pause_not_seen_by_running_loop:
  "isPaused paused_batch
   \<and> map v_status (tasks paused_batch) = [VipCompleted, VipCompleted]
   \<and> generationIndexRef paused_batch = 0
   \<and> \<not> isGenerating paused_batch"
  by code_simp

text \<open>
  The loop followed on its own and the loop of the machine are the same function: one
  step of the machine's loop, the settlement of the call, and the loop again.
\<close>

lemma generation_loop_steps:
  "generation_loop cap be paused_during i st =
     (case batch_advance cap i st of
        (st1, changed, BatchCall c j) \<Rightarrow>
          generation_loop cap be paused_during (j + 1)
            (mark_settled (v_id (cap_tasks cap ! j))
               (vip_call (be j) (cap_mainStylePrompt cap) (cap_referenceImages cap) (cap_tasks cap ! j))
               (if paused_during j then handlePause st1 else st1))
      | (st1, changed, c) \<Rightarrow> st1)"
proof (induction cap i st rule: batch_advance.induct)
  case (1 cap i st)
  show ?case
  proof (cases "i < length (cap_tasks cap) \<and> \<not> cap_isPaused cap
                \<and> v_status (cap_tasks cap ! i) = VipCompleted")
    case True
    then have "generation_loop cap be paused_during i st
             = generation_loop cap be paused_during (i + 1) st"
      by (simp add: generation_loop.simps[of cap be paused_during i st])
    moreover have "batch_advance cap i st = batch_advance cap (i + 1) st"
      using True by (simp add: batch_advance.simps[of cap i st])
    ultimately show ?thesis
      using "1.IH"[of "cap_tasks cap ! i"] True by simp
  next
    case False
    then show ?thesis
      by (auto simp: generation_loop.simps[of cap be paused_during i st]
          batch_advance.simps[of cap i st] Let_def)
  qed
qed

text \<open>The machine shows the same: the pause is not seen by the invocation in progress.\<close>

lemma pause_not_seen_in_machine:
  "isPaused (current paused_machine)
   \<and> map v_status (tasks (current paused_machine)) = [VipCompleted, VipGenerating]
   \<and> generationIndexRef (current paused_machine) = 0
   \<and> outstanding_items paused_machine = [1]"
  by code_simp

section \<open>Single flight\<close>

lemma isProcessing_enqueueTask: "isProcessing (enqueueTask tid d details st) = isProcessing st"
  by (simp add: enqueueTask_def Let_def)

lemma isProcessing_progress_tick: "isProcessing (progress_tick tid st) = isProcessing st"
  by (simp add: progress_tick_def)

lemma isProcessing_progress_decay: "isProcessing (progress_decay tid st) = isProcessing st"
  by (simp add: progress_decay_def)

lemma isProcessing_handleDeleteImage:
  "isProcessing (handleDeleteImage trashDate g i st) = isProcessing st"
  by (simp add: handleDeleteImage_def Let_def split: prod.splits option.splits)

lemma isProcessing_handleRestoreImage:
  "isProcessing (handleRestoreImage dateString g i st) = isProcessing st"
  by (simp add: handleRestoreImage_def Let_def split: prod.splits option.splits)

lemma isProcessing_handlePermanentlyDeleteImage:
  "isProcessing (handlePermanentlyDeleteImage g i st) = isProcessing st"
  by (simp add: handlePermanentlyDeleteImage_def)

lemma processQueue_begin_cases:
  "(isProcessing st \<and> processQueue_begin st = (st, None))
   \<or> (\<not> isProcessing st \<and> (\<exists>st'. processQueue_begin st = (st', None)))
   \<or> (\<not> isProcessing st \<and> (\<exists>st' task. processQueue_begin st = (st', Some task) \<and> isProcessing st'))"
  by (simp add: processQueue_begin_def startProgress_def Let_def)

lemma single_flight_step:
  assumes "single_flight r"
  shows "single_flight (queue_step r e)"
proof (cases e)
  case EffectRun
  show ?thesis
    using processQueue_begin_cases[of "app r"] assms
    by (auto simp: EffectRun single_flight_def)
next
  case (Settle outcome)
  show ?thesis
    using assms
    by (cases "outstanding r") (auto simp: Settle single_flight_def)
qed (use assms in \<open>simp_all add: single_flight_def isProcessing_enqueueTask
      isProcessing_progress_tick isProcessing_progress_decay isProcessing_handleDeleteImage
      isProcessing_handleRestoreImage isProcessing_handlePermanentlyDeleteImage\<close>)

lemma single_flight_foldl:
  "single_flight r \<Longrightarrow> single_flight (foldl queue_step r events)"
  by (induction events arbitrary: r) (simp_all add: single_flight_step)

lemma single_flight_reachable: "single_flight (queue_after st events)"
  unfolding queue_after_def
  by (rule single_flight_foldl) (simp add: single_flight_def)

lemma queue_single_flight: "length (outstanding (queue_after st events)) \<le> 1"
  using single_flight_reachable[of st events] by (simp add: single_flight_def)

text \<open>
  In the batch runner a commit after any change of the task list, with \<open>isGenerating\<close> set
  and \<open>isPaused\<close> clear, starts one more invocation of the loop.
\<close>

lemma commit_starts_invocation:
  assumes "tasks_identity r \<noteq> snd (snd (effect_deps r))"
    and "isGenerating (current r)" and "\<not> isPaused (current r)"
  shows "suspended (commit r) = suspended r @ [BatchParts (render (current r))]"
  using assms
  by (cases "effect_deps r")
     (auto simp: commit_def processGenerationQueue_start_def render_def Let_def)

text \<open>
  A single-item regeneration is refused while the batch flag is set, and it does not
  set the flag: two of them overlap.
\<close>

lemma single_guard_blocked:
  "isGenerating st \<Longrightarrow> handleGenerateSingleTask_guard tId st = None"
  by (simp add: handleGenerateSingleTask_guard_def split: option.splits)

lemma click_single_during_batch:
  "isGenerating (shown r) \<Longrightarrow> vip_step r (ClickGenerateSingle tId) = r"
  by (simp add: single_guard_blocked)

lemma two_singles_overlap:
  "map v_status (tasks (current two_singles)) = [VipGenerating, VipGenerating]
   \<and> outstanding_items two_singles = [0, 1]"
  by code_simp

text \<open>
  C6. \<open>generateAll\<close> on two pending items. The loop's first invocation marks item 0
  and dispatches its call; that \<open>setTasks\<close> rebuilds the callback the effect depends on,
  so the next commit runs the effect again and a second invocation starts from the
  cursor, finds item 0 not completed and dispatches a second call for it while the
  first is outstanding. When the first call settles before the second invocation
  reaches the loop, items 0 and 1 are generating at once.
\<close>

theorem batch_invocations_overlap:
  "outstanding_items batch_overlap = [0, 0]
   \<and> map v_status (tasks (current batch_overlap)) = [VipGenerating, VipPending]
   \<and> outstanding_items batch_overlap_late = [1, 0]
   \<and> map v_status (tasks (current batch_overlap_late)) = [VipGenerating, VipGenerating]"
  by code_simp

end
